theory Spec2Isabelle
  imports Complex_Main
begin

section \<open>RiftSubsidence: a shallow embedding of the simulation core\<close>

text \<open>
  The program (\<^verbatim>\<open>RiftSubsidence.py\<close>) is a line-by-line Python translation of a Fortran
  code.  All its state lives in module-level globals.  The embedding keeps three records:
  the input parameters (\<open>params\<close>), the constants derived from them before the sweep
  (\<open>derived\<close>) and the state mutated by the solver (\<open>sim\<close>).  Python floats are
  modelled as real numbers; every exception the source can raise is a value of \<open>error\<close>,
  and a loop that may run forever returns \<open>None\<close>.
\<close>

subsection \<open>Errors and checked primitives\<close>

datatype error =
  AssertionError | ValueError | ZeroDivisionError | UnboundLocalError | IndexError | TypeError

definition bind :: "error + 'a \<Rightarrow> ('a \<Rightarrow> error + 'b) \<Rightarrow> error + 'b" where
  "bind m f = (case m of Inl e \<Rightarrow> Inl e | Inr x \<Rightarrow> f x)"

text \<open>\<^verbatim>\<open>a / b\<close> on floats raises ZeroDivisionError when \<open>b\<close> is zero.\<close>

definition py_div :: "real \<Rightarrow> real \<Rightarrow> error + real" where
  "py_div a b = (if b = 0 then Inl ZeroDivisionError else Inr (a / b))"

text \<open>\<^verbatim>\<open>math.log(x)\<close> raises ValueError unless \<open>x\<close> is positive.\<close>

definition py_log :: "real \<Rightarrow> error + real" where
  "py_log x = (if x \<le> 0 then Inl ValueError else Inr (ln x))"

text \<open>\<^verbatim>\<open>math.sqrt(x)\<close> raises ValueError on a negative argument.\<close>

definition py_sqrt :: "real \<Rightarrow> error + real" where
  "py_sqrt x = (if x < 0 then Inl ValueError else Inr (sqrt x))"

text \<open>
  Arithmetic on a table cell that still holds \<^verbatim>\<open>None\<close> raises TypeError.
\<close>

definition num :: "real option \<Rightarrow> error + real" where
  "num c = (case c of None \<Rightarrow> Inl TypeError | Some x \<Rightarrow> Inr x)"

text \<open>
  The tables are indexed with \<^verbatim>\<open>[K-1]\<close>, \<^verbatim>\<open>[JGI-1]\<close> and the like, where the counter is
  never negative.  Index \<open>-1\<close> (counter zero) is Python's last element; an index beyond
  the length raises IndexError.
\<close>

definition py_idx :: "nat \<Rightarrow> nat \<Rightarrow> error + nat" where
  "py_idx n k = (if k = 0 then (if n = 0 then Inl IndexError else Inr (n - 1))
                 else if k - 1 < n then Inr (k - 1) else Inl IndexError)"

subsection \<open>Module constants (PARAMETER block)\<close>

definition NDIM1 :: nat where "NDIM1 = 4"
definition NDIM2 :: nat where "NDIM2 = 10000"
definition PI :: real where "PI = 3.1415927"
definition RHOM :: real where "RHOM = 3.35"
definition RHOC :: real where "RHOC = 2.78"
definition RHOW :: real where "RHOW = 1.03"
definition TASTH :: real where "TASTH = 1333"
definition DIFFUS :: real where "DIFFUS = 0.804 / 10 ^ 6"
definition TEXPAN :: real where "TEXPAN = 3.28 / 10 ^ 5"
definition TAUS :: real where "TAUS = 43.28"
definition IHFLW :: int where "IHFLW = 1"
definition CONDTY :: real where "CONDTY = 38.544"
definition TCO :: real where "TCO = 7000"
definition DW :: real where "DW = 2500"

subsection \<open>Input parameters\<close>

record params =
  BETMIN :: real
  BETMAX :: real
  BETINC :: real
  BETA2 :: real
  BETA3 :: real
  ILOAD :: int
  ICOMP :: int
  TBEG1 :: real
  TEND1 :: real
  TBEG2 :: real
  TEND2 :: real
  TBEG3 :: real
  TEND3 :: real
  TSTOP :: real
  ITYPE1 :: int
  ITYPE2 :: int
  ITYPE3 :: int
  IRIFT :: int
  RHOS :: real
  PHI0 :: real
  CONST' :: real
  CYCLES :: real
  FRAC :: real
  TC :: real

text \<open>The values of the INITVR block, which a configuration file overrides.\<close>

definition INITVR :: params where
  "INITVR = \<lparr> BETMIN = 1.5, BETMAX = 2.0, BETINC = 0.5, BETA2 = 1.1, BETA3 = 1.1,
     ILOAD = 1, ICOMP = 0, TBEG1 = 160, TEND1 = 100, TBEG2 = 60, TEND2 = 50,
     TBEG3 = 20, TEND3 = 10, TSTOP = 0, ITYPE1 = 1, ITYPE2 = 1, ITYPE3 = 1, IRIFT = 1,
     RHOS = 2.6, PHI0 = 0.6, CONST' = 2.0, CYCLES = 1.5, FRAC = 0.8, TC = 30000 \<rparr>"

subsection \<open>Derived constants\<close>

record derived =
  TL :: real
  TIMSC :: real
  DTBEG1 :: real
  DTEND1 :: real
  DTBEG2 :: real
  DTEND2 :: real
  DTBEG3 :: real
  DTEND3 :: real
  DTSTOP :: real
  DTST :: real
  DTAUS :: real
  RHOA :: real
  CONBET :: real
  CONTRM :: real
  CONB1 :: real
  CONB2 :: real
  GP2 :: real
  GP3 :: real

text \<open>The values these globals have when the module is loaded.\<close>

definition derived0 :: derived where
  "derived0 = \<lparr> TL = 125000, TIMSC = 0, DTBEG1 = 0, DTEND1 = 0, DTBEG2 = 0, DTEND2 = 0,
     DTBEG3 = 0, DTEND3 = 0, DTSTOP = 0, DTST = 0, DTAUS = 0, RHOA = 0, CONBET = 0,
     CONTRM = 0, CONB1 = 0, CONB2 = 0, GP2 = 0, GP3 = 0 \<rparr>"

subsection \<open>calculate_TL\<close>

text \<open>
  The function stores the lithospheric thickness in the global \<open>TL\<close> and prints it in
  kilometres.  The local \<^verbatim>\<open>TLM\<close> is assigned only under \<^verbatim>\<open>if TL >= TC\<close> and then read
  by the final \<^verbatim>\<open>print\<close>: when it was not assigned the read raises UnboundLocalError.
  The result carries the new \<open>TL\<close> and whether the ERROR line was printed.  The divisor
  \<open>2 * AINT\<close> is a non-zero constant.
\<close>

definition AINT :: real where
  "AINT = (RHOM * TEXPAN * TASTH) / 2"

definition BINT :: "real \<Rightarrow> real" where
  "BINT tc = (RHOW * DW + RHOC * TCO) - (DW + TCO) * RHOM * (1 - TEXPAN * TASTH)
             - tc * (RHOC - RHOM)"

definition CINT :: "real \<Rightarrow> real" where
  "CINT tc = ((tc ^ 2 * TASTH * TEXPAN) * (RHOM - RHOC)) / 2"

definition calculate_TL :: "real \<Rightarrow> error + (real \<times> bool)" where
  "calculate_TL tc =
     bind (py_sqrt ((BINT tc) ^ 2 - 4 * AINT * CINT tc)) (\<lambda>r1.
       let TL1 = (- BINT tc + r1) / (2 * AINT) in
       bind (if TL1 \<le> 20000 \<or> TL1 \<ge> 200000
             then bind (py_sqrt ((BINT tc) ^ 2 - 4 * AINT * CINT tc))
                    (\<lambda>r2. Inr ((- BINT tc - r2) / (2 * AINT)))
             else Inr TL1) (\<lambda>TL2.
       let TL3 = - TL2;
           reported = (TL3 \<le> tc);
           TLM = (if TL3 \<ge> tc then Some (TL3 / 1000) else None)
       in case TLM of None \<Rightarrow> Inl UnboundLocalError
                    | Some _ \<Rightarrow> Inr (TL3, reported)))"

subsection \<open>check_cfg\<close>

definition check_cfg :: "params \<Rightarrow> error + unit" where
  "check_cfg p =
     (if IRIFT p \<ge> 1 \<and> \<not> TBEG1 p > TEND1 p then Inl AssertionError
      else if IRIFT p \<ge> 2 \<and> \<not> TBEG2 p > TEND2 p then Inl AssertionError
      else if IRIFT p \<ge> 3 \<and> \<not> TBEG3 p > TEND3 p then Inl AssertionError
      else Inr ())"

subsection \<open>nondimensionalise_parameters\<close>

text \<open>
  Every assignment divides by \<open>TIMSC\<close>, so the first one raises when \<open>TIMSC\<close> is zero;
  \<open>DTSTOP\<close> is assigned whatever \<open>IRIFT\<close> is.
\<close>

definition nondim :: "real \<Rightarrow> real \<Rightarrow> real \<Rightarrow> error + real" where
  "nondim tbeg1 timsc t = py_div (- t + tbeg1) timsc"

definition nondimensionalise_parameters :: "params \<Rightarrow> derived \<Rightarrow> error + derived" where
  "nondimensionalise_parameters p d =
     (let timsc = (TL d) ^ 2 / (DIFFUS * (3.15 * 10 ^ 13));
          d0 = d\<lparr>TIMSC := timsc\<rparr> in
      bind (if IRIFT p \<ge> 1
            then bind (nondim (TBEG1 p) timsc (TBEG1 p)) (\<lambda>b.
                 bind (nondim (TBEG1 p) timsc (TEND1 p)) (\<lambda>e.
                 Inr (d0\<lparr>DTBEG1 := b, DTEND1 := e\<rparr>)))
            else Inr d0) (\<lambda>d1.
      bind (if IRIFT p \<ge> 2
            then bind (nondim (TBEG1 p) timsc (TBEG2 p)) (\<lambda>b.
                 bind (nondim (TBEG1 p) timsc (TEND2 p)) (\<lambda>e.
                 Inr (d1\<lparr>DTBEG2 := b, DTEND2 := e\<rparr>)))
            else Inr d1) (\<lambda>d2.
      bind (if IRIFT p \<ge> 3
            then bind (nondim (TBEG1 p) timsc (TBEG3 p)) (\<lambda>b.
                 bind (nondim (TBEG1 p) timsc (TEND3 p)) (\<lambda>e.
                 Inr (d2\<lparr>DTBEG3 := b, DTEND3 := e\<rparr>)))
            else Inr d2) (\<lambda>d3.
      bind (nondim (TBEG1 p) timsc (TSTOP p)) (\<lambda>s.
      bind (py_div 1 timsc) (\<lambda>st.
      bind (py_div TAUS timsc) (\<lambda>ta.
      Inr (d3\<lparr>DTSTOP := s, DTST := st, DTAUS := ta\<rparr>))))))))"

text \<open>The time conversion of the finalisation pass in \<^verbatim>\<open>run\<close>.\<close>

definition dimensionalise_time :: "real \<Rightarrow> real \<Rightarrow> real \<Rightarrow> real" where
  "dimensionalise_time tbeg1 timsc dt = - dt * timsc + tbeg1"

subsection \<open>setup_constants\<close>

text \<open>
  The strain-rate magnitude of one later episode, as the three \<^verbatim>\<open>ITYPE\<close> branches
  compute it; another \<^verbatim>\<open>ITYPE\<close> leaves the global as it was.
\<close>

definition later_GP :: "int \<Rightarrow> real \<Rightarrow> real \<Rightarrow> real \<Rightarrow> real \<Rightarrow> real \<Rightarrow> error + real" where
  "later_GP itype beta dtbeg dtend dtaus old =
     (if itype = 1 then bind (py_log beta) (\<lambda>l. py_div l (dtend - dtbeg))
      else if itype = 2 then
        bind (py_log beta) (\<lambda>l.
        bind (py_div (- (dtend - dtbeg)) dtaus) (\<lambda>q. py_div l (1 - exp q)))
      else if itype = 3 then
        bind (py_log beta) (\<lambda>l.
        bind (py_div (dtend - dtbeg) dtaus) (\<lambda>q. py_div l (exp q - 1)))
      else Inr old)"

text \<open>The branch on \<^verbatim>\<open>ICOMP\<close> and \<^verbatim>\<open>ILOAD\<close> that sets \<^verbatim>\<open>CONBET\<close> and \<^verbatim>\<open>CONTRM\<close>.\<close>

definition load_constants :: "params \<Rightarrow> real \<Rightarrow> derived \<Rightarrow> error + derived" where
  "load_constants p rhoa d =
     (if ICOMP p = 0 then
        (if ILOAD p = 2 then
           bind (py_div ((RHOM - RHOC) * TC p) (rhoa - RHOS p)) (\<lambda>cb.
           bind (py_div (TEXPAN * RHOM * TL d * TASTH) (rhoa - RHOS p)) (\<lambda>ct.
           Inr (d\<lparr>CONBET := cb, CONTRM := ct\<rparr>)))
         else if ILOAD p = 1 then
           bind (py_div ((RHOM - RHOC) * TC p) (rhoa - RHOW)) (\<lambda>cb.
           bind (py_div (TEXPAN * RHOM * TL d * TASTH) (rhoa - RHOW)) (\<lambda>ct.
           Inr (d\<lparr>CONBET := cb, CONTRM := ct\<rparr>)))
         else if ILOAD p = 0 then
           bind (py_div ((RHOM - RHOC) * TC p) rhoa) (\<lambda>cb.
           bind (py_div (TEXPAN * RHOM * TL d * TASTH) rhoa) (\<lambda>ct.
           Inr (d\<lparr>CONBET := cb, CONTRM := ct\<rparr>)))
         else Inr d)
      else
        bind (py_div ((RHOM - RHOC) * TC p) rhoa) (\<lambda>cb.
        bind (py_div (TEXPAN * RHOM * TL d * TASTH) rhoa) (\<lambda>ct.
        Inr (d\<lparr>CONBET := cb, CONTRM := ct\<rparr>))))"

text \<open>
  The block after \<^verbatim>\<open>global GP2, GP3\<close>: \<^verbatim>\<open>if IRIFT >= 2: ... elif IRIFT >= 3: ...\<close>.
\<close>

definition later_forcing :: "params \<Rightarrow> derived \<Rightarrow> error + derived" where
  "later_forcing p d =
     (if IRIFT p \<ge> 2 then
        bind (later_GP (ITYPE2 p) (BETA2 p) (DTBEG2 d) (DTEND2 d) (DTAUS d) (GP2 d))
          (\<lambda>g. Inr (d\<lparr>GP2 := g\<rparr>))
      else if IRIFT p \<ge> 3 then
        bind (later_GP (ITYPE3 p) (BETA3 p) (DTBEG3 d) (DTEND3 d) (DTAUS d) (GP3 d))
          (\<lambda>g. Inr (d\<lparr>GP3 := g\<rparr>))
      else Inr d)"

definition setup_constants :: "params \<Rightarrow> derived \<Rightarrow> error + derived" where
  "setup_constants p d =
     (let rhoa = RHOM * (1.0 - (TEXPAN * TASTH)) in
      bind (load_constants p rhoa (d\<lparr>RHOA := rhoa\<rparr>)) (\<lambda>d1.
      bind (py_div (rhoa - RHOW) (rhoa - RHOS p)) (\<lambda>c1.
      bind (py_div (RHOS p - RHOW) (rhoa - RHOS p)) (\<lambda>c2.
      later_forcing p (d1\<lparr>CONB1 := c1, CONB2 := c2\<rparr>)))))"

subsection \<open>Solver state\<close>

text \<open>
  \<open>DATA\<close> is the output table (four columns of \<open>NDIM2\<close> cells: time, subsidence, heat
  flow, strain rate), \<open>TEM\<close> holds the two temperature buffers in its first two rows.
  A cell is \<open>None\<close> until it is written.  \<open>K\<close> is the one-based row counter.
\<close>

record sim =
  K :: nat
  DATA :: "nat \<Rightarrow> nat \<Rightarrow> real option"
  TEM :: "nat \<Rightarrow> nat \<Rightarrow> real option"
  TRINIT :: real
  SINIT :: real
  AMPL :: real
  WAVEN :: real
  GP1 :: real

text \<open>The module-level values of these globals.\<close>

definition sim0 :: sim where
  "sim0 = \<lparr> K = 1, DATA = (\<lambda>r c. None), TEM = (\<lambda>r c. None), TRINIT = 0, SINIT = 0,
            AMPL = 1, WAVEN = 1, GP1 = 0 \<rparr>"

text \<open>\<^verbatim>\<open>DATA[r][k-1] = v\<close> and \<^verbatim>\<open>DATA[r][k-1]\<close>, for a literal row \<open>r\<close>.\<close>

definition DATA_set :: "nat \<Rightarrow> nat \<Rightarrow> real option \<Rightarrow> sim \<Rightarrow> error + sim" where
  "DATA_set r k v s =
     bind (py_idx NDIM2 k) (\<lambda>c. Inr (s\<lparr>DATA := (DATA s)(r := (DATA s r)(c := v))\<rparr>))"

definition DATA_get :: "nat \<Rightarrow> nat \<Rightarrow> sim \<Rightarrow> error + real option" where
  "DATA_get r k s = bind (py_idx NDIM2 k) (\<lambda>c. Inr (DATA s r c))"

text \<open>
  A temperature read used in arithmetic: \<^verbatim>\<open>TEM[r][c]\<close> for a zero-based row and column.
\<close>

definition TEM_num :: "sim \<Rightarrow> nat \<Rightarrow> nat \<Rightarrow> error + real" where
  "TEM_num s r c = (if r < NDIM1 \<and> c < NDIM2 then num (TEM s r c) else Inl IndexError)"

text \<open>\<^verbatim>\<open>TEM[JGI-1][c]\<close>, with the buffer given by its one-based number.\<close>

definition TEM_at :: "sim \<Rightarrow> nat \<Rightarrow> nat \<Rightarrow> error + real" where
  "TEM_at s jgi c = bind (py_idx NDIM1 jgi) (\<lambda>r. TEM_num s r c)"

subsection \<open>SUBCAL\<close>

text \<open>
  The stretching factor \<^verbatim>\<open>BETAT\<close> after the elapsed time \<open>www\<close>.  A regime outside
  \<open>1..4\<close> leaves the variable unbound (\<open>None\<close>).  In regime 4 the locals \<^verbatim>\<open>P\<close> and
  \<^verbatim>\<open>R\<close> start at zero on every call and are set only under the tests on \<^verbatim>\<open>JSUBS\<close>.
\<close>

definition BETAT_of ::
  "sim \<Rightarrow> int \<Rightarrow> real \<Rightarrow> real \<Rightarrow> real \<Rightarrow> int \<Rightarrow> real \<Rightarrow> error + real option" where
  "BETAT_of s itype g dtend dtaus jsubs www =
     (if itype = 1 then Inr (Some (exp (g * www)))
      else if itype = 2 then
        bind (py_div (- www) dtaus) (\<lambda>q. Inr (Some (exp (g * (1 - exp q)))))
      else if itype = 3 then
        bind (py_div www dtaus) (\<lambda>q. Inr (Some (exp (g * (exp q - 1)))))
      else if itype = 4 then
        bind (py_div g (AMPL s * WAVEN s)) (\<lambda>brk.
        if www \<le> brk then Inr (Some (exp (0.5 * WAVEN s * AMPL s * www ^ 2)))
        else if www > brk \<and> www \<le> dtend - brk then
          (let P = (if jsubs = 0 then brk else 0);
               Q = www - P in
           bind (py_div (AMPL s) (WAVEN s)) (\<lambda>aw.
           Inr (Some (exp ((0.5 * WAVEN s * AMPL s * P ^ 2) + (g * Q)
                           - (aw * (cos (WAVEN s * Q) - 1)))))))
        else if www > dtend - brk then
          (let P = 0;
               R = (if jsubs = 1 then dtend - brk else 0);
               S = www - R in
           bind (py_div (AMPL s) (WAVEN s)) (\<lambda>aw.
           bind (py_div (g * S) (WAVEN s * AMPL s)) (\<lambda>gs.
           Inr (Some (exp ((0.5 * WAVEN s * AMPL s * P ^ 2) + (g * (R - P))
                           - (aw * (cos (WAVEN s * (R - P)) - 1))
                           + (WAVEN s * AMPL s * (gs - (0.5 * S ^ 2)))))))))
        else Inr None)
      else Inr None)"

text \<open>
  The trapezoidal sum over the buffer \<open>jgi\<close>:
  \<^verbatim>\<open>for I in range(2,JNP1+1): TRAP = S*(TEM[JGI-1][I-2] + TEM[JGI-1][I-1]) + TRAP\<close>
  with \<^verbatim>\<open>S = 0.5*DZ\<close>.
\<close>

fun trap_loop :: "sim \<Rightarrow> nat \<Rightarrow> real \<Rightarrow> nat list \<Rightarrow> real \<Rightarrow> error + real" where
  "trap_loop s jgi dz [] trap = Inr trap"
| "trap_loop s jgi dz (i # is) trap =
     bind (TEM_at s jgi (i - 2)) (\<lambda>a.
     bind (TEM_at s jgi (i - 1)) (\<lambda>b.
     trap_loop s jgi dz is (0.5 * dz * (a + b) + trap)))"

definition TRAP_of :: "sim \<Rightarrow> nat \<Rightarrow> real \<Rightarrow> nat \<Rightarrow> error + real" where
  "TRAP_of s jgi dz jnp1 = trap_loop s jgi dz [2 ..< jnp1 + 1] 0"

text \<open>
  The value \<^verbatim>\<open>SUBS\<close> of the advective branch.  An unbound \<^verbatim>\<open>BETAT\<close> raises when it
  is read.
\<close>

definition SUBS_adv ::
  "real option \<Rightarrow> nat \<Rightarrow> real \<Rightarrow> real \<Rightarrow> real \<Rightarrow> real \<Rightarrow> error + real" where
  "SUBS_adv betat krr conbet contrm beta1 trap =
     (case betat of
        None \<Rightarrow> Inl UnboundLocalError
      | Some b \<Rightarrow>
          if krr = 0 then
            bind (py_div 1 b) (\<lambda>ib. Inr (conbet * (1 - ib) + contrm * (0.5 - trap)))
          else
            bind (py_div 1 b) (\<lambda>ib.
            bind (py_div 1 beta1) (\<lambda>i1.
            Inr (conbet * (2 - ib - i1) + contrm * (0.5 - trap)))))"

text \<open>
  \<^verbatim>\<open>SUBCAL(T,IADV,CONBET,CONTRM,CONB1,CONB2,JNP1,DTEND,G,K,JGI,DZ,DTAUS,ITYPE,KRR,IRIFT,
  DTBEGX,BETA1,JSUBS)\<close>; the parameters \<^verbatim>\<open>CONB1\<close>, \<^verbatim>\<open>CONB2\<close> and \<^verbatim>\<open>IRIFT\<close> are not used
  by the body and are left out.  \<^verbatim>\<open>KRR\<close> is 0, 1 or 2 at every call.
\<close>

definition SUBCAL ::
  "real \<Rightarrow> int \<Rightarrow> real \<Rightarrow> real \<Rightarrow> nat \<Rightarrow> real \<Rightarrow> real \<Rightarrow> nat \<Rightarrow> nat \<Rightarrow> real \<Rightarrow> real
   \<Rightarrow> int \<Rightarrow> nat \<Rightarrow> real \<Rightarrow> real \<Rightarrow> int \<Rightarrow> sim \<Rightarrow> error + sim" where
  "SUBCAL t iadv conbet contrm jnp1 dtend g k jgi dz dtaus itype krr dtbegx beta1 jsubs s =
     (if iadv = 1 then
        (let www = (if krr = 0 then t else t - dtbegx) in
         bind (BETAT_of s itype g dtend dtaus jsubs www) (\<lambda>betat.
         bind (TRAP_of s jgi dz jnp1) (\<lambda>trap.
         let s1 = (if t = dtend then s\<lparr>TRINIT := trap\<rparr> else s) in
         bind (SUBS_adv betat krr conbet contrm beta1 trap) (\<lambda>subs.
         bind (DATA_set 1 k (Some (subs * (1 / 10 ^ 3))) s1) (\<lambda>s2.
         if t = dtend then
           bind (DATA_get 1 k s2) (\<lambda>c. bind (num c) (\<lambda>v. Inr (s2\<lparr>SINIT := v\<rparr>)))
         else Inr s2)))))
      else
        bind (TRAP_of s jgi dz jnp1) (\<lambda>trap.
        let subs = contrm * (TRINIT s - trap) in
        DATA_set 1 k (Some (subs * (1 / 10 ^ 3) + SINIT s)) s))"

subsection \<open>TIMSTR\<close>

text \<open>
  The sixteen parameters of \<^verbatim>\<open>TIMSTR(G,DTEND,DTSTOP,DTAUS,CONBET,CONTRM,DTBEGX,DTBEGY,
  DTST,ITYPE,IHFLW,KRR,IRIFT,BETA1,CONB1,CONB2)\<close>; the prefix \<open>a\<close> tells them from the
  globals of the same name.  The driver passes 0, 1 or 2 for \<^verbatim>\<open>KRR\<close>.
\<close>

record targs =
  aG :: real
  aDTEND :: real
  aDTSTOP :: real
  aDTAUS :: real
  aCONBET :: real
  aCONTRM :: real
  aDTBEGX :: real
  aDTBEGY :: real
  aDTST :: real
  aITYPE :: int
  aIHFLW :: int
  aKRR :: nat
  aIRIFT :: int
  aBETA1 :: real
  aCONB1 :: real
  aCONB2 :: real

text \<open>The locals of \<^verbatim>\<open>TIMSTR\<close> that live across iterations of its loop.\<close>

record tloc =
  T :: real
  DT :: real
  DTI :: real
  JGI :: nat
  JGF :: nat
  JFLAG :: int
  IADV :: int
  STOT :: "real option"

definition DZ :: real where "DZ = 0.05"
definition JN :: nat where "JN = 20"
definition JNP1 :: nat where "JNP1 = JN + 1"
definition JSUBS :: int where "JSUBS = 0"

text \<open>The conductive stability limit \<^verbatim>\<open>DTC = DZ**2/2.\<close>\<close>

definition DTC :: real where "DTC = DZ ^ 2 / 2"

text \<open>
  \<^verbatim>\<open>GMAX = AMPL + G; DTCFL = DZ/GMAX; DT = min(DTC,DTCFL); DTI = min(DT,DTST)\<close>,
  where \<^verbatim>\<open>AMPL\<close> is the global.
\<close>

definition DTI_of :: "targs \<Rightarrow> sim \<Rightarrow> error + real" where
  "DTI_of a s =
     (let GMAX = AMPL s + aG a in
      bind (py_div DZ GMAX) (\<lambda>DTCFL.
      let dt = min DTC DTCFL in Inr (min dt (aDTST a))))"

text \<open>
  The strain rate stored in the fourth column.  The row written before the loop tests
  the regime-4 breakpoints with \<^verbatim>\<open><\<close> and \<^verbatim>\<open>>=\<close>, the rows written in the loop with
  \<^verbatim>\<open><=\<close> and \<^verbatim>\<open>>\<close>.  \<open>None\<close>: the cell is not assigned.
\<close>

definition strain_rate_init :: "targs \<Rightarrow> sim \<Rightarrow> real \<Rightarrow> error + real option" where
  "strain_rate_init a s t =
     (if aITYPE a = 1 then Inr (Some (aG a))
      else if aITYPE a = 2 then
        bind (py_div (- t) (aDTAUS a)) (\<lambda>q.
        bind (py_div (aG a * exp q) (aDTAUS a)) (\<lambda>v. Inr (Some v)))
      else if aITYPE a = 3 then
        bind (py_div t (aDTAUS a)) (\<lambda>q.
        bind (py_div (aG a * exp q) (aDTAUS a)) (\<lambda>v. Inr (Some v)))
      else if aITYPE a = 4 then
        bind (py_div (aG a) (AMPL s * WAVEN s)) (\<lambda>brk.
        if t < brk then Inr (Some (t * AMPL s * WAVEN s))
        else if t \<ge> brk \<and> t < aDTEND a - brk then
          bind (py_div (aG a) (WAVEN s * AMPL s)) (\<lambda>sh.
          Inr (Some (AMPL s * sin (WAVEN s * (t - sh)) + aG a)))
        else if t \<ge> aDTEND a - brk then Inr (Some ((aDTEND a - t) * WAVEN s * AMPL s))
        else Inr None)
      else Inr None)"

definition strain_rate :: "targs \<Rightarrow> sim \<Rightarrow> real \<Rightarrow> error + real option" where
  "strain_rate a s t =
     (if aITYPE a = 1 then Inr (Some (aG a))
      else if aITYPE a = 2 then
        bind (py_div (- t) (aDTAUS a)) (\<lambda>q.
        bind (py_div (aG a * exp q) (aDTAUS a)) (\<lambda>v. Inr (Some v)))
      else if aITYPE a = 3 then
        bind (py_div t (aDTAUS a)) (\<lambda>q.
        bind (py_div (aG a * exp q) (aDTAUS a)) (\<lambda>v. Inr (Some v)))
      else if aITYPE a = 4 then
        bind (py_div (aG a) (AMPL s * WAVEN s)) (\<lambda>brk.
        if t \<le> brk then Inr (Some (t * AMPL s * WAVEN s))
        else if t > brk \<and> t \<le> aDTEND a - brk then
          bind (py_div (aG a) (WAVEN s * AMPL s)) (\<lambda>sh.
          Inr (Some (AMPL s * sin (WAVEN s * (t - sh)) + aG a)))
        else if t > aDTEND a - brk then Inr (Some ((aDTEND a - t) * WAVEN s * AMPL s))
        else Inr None)
      else Inr None)"

text \<open>
  The regime-4 multiplier \<^verbatim>\<open>GVECT\<close> of the advection term; \<open>sh\<close> is zero for the first
  episode and \<^verbatim>\<open>DTBEGX\<close> for a later one.  The breakpoints are tested on \<open>t\<close> itself.
\<close>

definition GVECT_of :: "targs \<Rightarrow> sim \<Rightarrow> real \<Rightarrow> real \<Rightarrow> error + real" where
  "GVECT_of a s t sh =
     bind (py_div (aG a) (AMPL s * WAVEN s)) (\<lambda>brk.
     if t \<le> brk then Inr ((t - sh) * AMPL s * WAVEN s)
     else if t > brk \<and> t \<le> aDTEND a - brk then
       bind (py_div (aG a) (WAVEN s * AMPL s)) (\<lambda>q.
       Inr (AMPL s * sin (WAVEN s * (t - sh - q)) + aG a))
     else if t > aDTEND a - brk then Inr ((aDTEND a - (t - sh)) * WAVEN s * AMPL s)
     else Inl UnboundLocalError)"

text \<open>
  The advection term \<^verbatim>\<open>ADV\<close> at node \<open>J\<close>.  \<open>up\<close> and \<open>lo\<close> are \<^verbatim>\<open>TEM[JGI-1][J]\<close> and
  \<^verbatim>\<open>TEM[JGI-1][J-2]\<close>, already read for \<^verbatim>\<open>DELSQ\<close>.  For a later episode in regime 2 the
  source reads \<^verbatim>\<open>TEM[JGI][J]\<close> and \<^verbatim>\<open>TEM[JGI][J-2]\<close> instead.
\<close>

definition ADV_of :: "targs \<Rightarrow> tloc \<Rightarrow> sim \<Rightarrow> nat \<Rightarrow> real \<Rightarrow> real \<Rightarrow> error + real" where
  "ADV_of a l s J up lo =
     (let w = 1 - (real J - 1) * DZ in
      if IADV l = 1 \<and> aITYPE a = 1 then Inr ((aG a * w * (up - lo)) / (2 * DZ))
      else if IADV l = 1 \<and> aITYPE a = 2 then
        (if aKRR a = 0 then
           bind (py_div (- T l) (aDTAUS a)) (\<lambda>q.
           bind (py_div (aG a * exp q) (aDTAUS a)) (\<lambda>v.
           Inr ((v * w * (up - lo)) / (2 * DZ))))
         else
           bind (py_div (- (T l - aDTBEGX a)) (aDTAUS a)) (\<lambda>q.
           bind (py_div (aG a * exp q) (aDTAUS a)) (\<lambda>v.
           bind (TEM_num s (JGI l) J) (\<lambda>up'.
           bind (TEM_num s (JGI l) (J - 2)) (\<lambda>lo'.
           Inr ((v * w * (up' - lo')) / (2 * DZ)))))))
      else if IADV l = 1 \<and> aITYPE a = 3 then
        bind (py_div (if aKRR a = 0 then T l else T l - aDTBEGX a) (aDTAUS a)) (\<lambda>q.
        bind (py_div (aG a * exp q) (aDTAUS a)) (\<lambda>v.
        Inr ((v * w * (up - lo)) / (2 * DZ))))
      else if IADV l = 1 \<and> aITYPE a = 4 then
        bind (GVECT_of a s (T l) (if aKRR a = 0 then 0 else aDTBEGX a)) (\<lambda>gv.
        Inr ((gv * w * (up - lo)) / (2 * DZ)))
      else Inr 0)"

text \<open>
  One pass of the body of \<^verbatim>\<open>for J in range(2, JN+1)\<close>: the explicit update of node \<open>J\<close>
  (one-based), written to \<^verbatim>\<open>TEM[JGF-1][J-1]\<close>.
\<close>

definition tem_node :: "targs \<Rightarrow> tloc \<Rightarrow> nat \<Rightarrow> sim \<Rightarrow> error + sim" where
  "tem_node a l J s =
     bind (TEM_at s (JGI l) J) (\<lambda>up.
     bind (TEM_at s (JGI l) (J - 1)) (\<lambda>mid.
     bind (TEM_at s (JGI l) (J - 2)) (\<lambda>lo.
     let DELSQ = (up - 2 * mid + lo) / DZ ^ 2 in
     bind (ADV_of a l s J up lo) (\<lambda>ADV.
     bind (py_idx NDIM1 (JGF l)) (\<lambda>r.
     if J - 1 < NDIM2
     then Inr (s\<lparr>TEM := (TEM s)(r := (TEM s r)(J - 1 := Some (mid + DT l * (DELSQ - ADV))))\<rparr>)
     else Inl IndexError)))))"

fun tem_sweep :: "targs \<Rightarrow> tloc \<Rightarrow> nat list \<Rightarrow> sim \<Rightarrow> error + sim" where
  "tem_sweep a l [] s = Inr s"
| "tem_sweep a l (J # Js) s = bind (tem_node a l J s) (tem_sweep a l Js)"

text \<open>The halt time of the episode.\<close>

definition DTHALT_of :: "targs \<Rightarrow> real" where
  "DTHALT_of a =
     (let h0 = aDTSTOP a;
          h1 = (if aKRR a = 0 \<and> aIRIFT a = 2 then aDTBEGX a else h0);
          h2 = (if aKRR a = 0 \<and> aIRIFT a = 3 then aDTBEGX a else h1)
      in if aKRR a = 1 \<and> aIRIFT a = 3 then aDTBEGY a else h2)"

text \<open>
  Appending a row: \<^verbatim>\<open>K=K+1\<close>, the time, the subsidence through \<^verbatim>\<open>SUBCAL\<close>, and, when
  \<^verbatim>\<open>IHFLW == 1\<close>, the heat flow and the strain rate.  \<open>l\<close> holds the new time and the
  buffer numbers after the swap.
\<close>

definition record_row :: "targs \<Rightarrow> tloc \<Rightarrow> sim \<Rightarrow> error + sim" where
  "record_row a l s =
     (let s1 = s\<lparr>K := K s + 1\<rparr> in
      bind (DATA_set 0 (K s1) (Some (T l)) s1) (\<lambda>s2.
      bind (SUBCAL (T l) (IADV l) (aCONBET a) (aCONTRM a) JNP1 (aDTEND a) (aG a) (K s2)
              (JGI l) DZ (aDTAUS a) (aITYPE a) (aKRR a) (aDTBEGX a) (aBETA1 a) JSUBS s2) (\<lambda>s3.
      if aIHFLW a = 1 then
        bind (TEM_at s3 (JGI l) (JN - 1)) (\<lambda>tn.
        bind (DATA_set 2 (K s3) (Some (tn / DZ)) s3) (\<lambda>s4.
        if IADV l = 0 then DATA_set 3 (K s4) (Some 0) s4
        else if IADV l = 1 then
          bind (strain_rate a s4 (T l)) (\<lambda>v.
          case v of None \<Rightarrow> Inr s4 | Some x \<Rightarrow> DATA_set 3 (K s4) (Some x) s4)
        else Inr s4))
      else Inr s3)))"

text \<open>
  The step control at the end of the loop body.  The Boolean tells whether the loop
  continues.
\<close>

definition step_control :: "targs \<Rightarrow> tloc \<Rightarrow> sim \<Rightarrow> error + (bool \<times> tloc)" where
  "step_control a l s =
     (let DTHALT = DTHALT_of a in
      if T l + DT l \<le> aDTEND a then Inr (True, l)
      else if T l + DT l > aDTEND a \<and> JFLAG l = 0 then
        Inr (True, l\<lparr>JFLAG := 1, DT := aDTEND a - T l\<rparr>)
      else if T l + DT l < DTHALT \<and> JFLAG l = 1 then Inr (True, l\<lparr>IADV := 0\<rparr>)
      else if T l + DT l \<ge> DTHALT \<and> JFLAG l \<noteq> 2 then
        (let l' = l\<lparr>JFLAG := 2, DT := DTHALT - T l\<rparr> in
         if DT l' \<noteq> 0 then Inr (True, l') else Inr (False, l'))
      else if JFLAG l = 2 then
        (if aIRIFT a > 1 then bind (DATA_get 1 (K s) s) (\<lambda>c. Inr (False, l\<lparr>STOT := c\<rparr>))
         else Inr (False, l))
      else Inr (False, l))"

text \<open>
  The statements after the node loop: \<^verbatim>\<open>T=T+DT\<close>, the restoring \<^verbatim>\<open>DT=DTI\<close> and the
  swap of the two buffer numbers.
\<close>

definition advance :: "tloc \<Rightarrow> tloc" where
  "advance l =
     (let l1 = l\<lparr>T := T l + DT l\<rparr>;
          l2 = l1\<lparr>DT := DTI l1\<rparr>
      in if JGI l2 = 1 then l2\<lparr>JGI := 2, JGF := 1\<rparr>
         else if JGI l2 = 2 then l2\<lparr>JGI := 1, JGF := 2\<rparr> else l2)"

text \<open>
  The test \<^verbatim>\<open>if(T >= DATA[0][K-1]+DTST) or (T == DTHALT) or (T == DTEND)\<close> and the row
  it guards.
\<close>

definition maybe_record :: "targs \<Rightarrow> tloc \<Rightarrow> sim \<Rightarrow> error + sim" where
  "maybe_record a l s =
     bind (DATA_get 0 (K s) s) (\<lambda>c.
     bind (num c) (\<lambda>last.
     if T l \<ge> last + aDTST a \<or> T l = DTHALT_of a \<or> T l = aDTEND a
     then record_row a l s else Inr s))"

text \<open>One iteration of \<^verbatim>\<open>while(1)\<close>.\<close>

definition TIMSTR_body :: "targs \<Rightarrow> tloc \<times> sim \<Rightarrow> error + (bool \<times> tloc \<times> sim)" where
  "TIMSTR_body a ls =
     (case ls of (l, s) \<Rightarrow>
      bind (tem_sweep a l [2 ..< JN + 1] s) (\<lambda>s1.
      let l3 = advance l in
      bind (maybe_record a l3 s1) (\<lambda>s2.
      bind (step_control a l3 s2) (\<lambda>(go, l4). Inr (go, l4, s2)))))"

partial_function (option) TIMSTR_loop :: "targs \<Rightarrow> tloc \<times> sim \<Rightarrow> (error + sim) option" where
  "TIMSTR_loop a ls =
     (case TIMSTR_body a ls of
        Inl e \<Rightarrow> Some (Inl e)
      | Inr (go, l', s') \<Rightarrow> if go then TIMSTR_loop a (l', s') else Some (Inr s'))"

text \<open>The conductive profile both buffers are set to when \<^verbatim>\<open>KRR == 0\<close>.\<close>

definition init_TEM :: "sim \<Rightarrow> sim" where
  "init_TEM s =
     s\<lparr>TEM := (\<lambda>r c. if r < 2 \<and> c < JNP1 then Some (1 - DZ * real c) else TEM s r c)\<rparr>"

text \<open>The statements before the loop: the step size, the first row, the profile.\<close>

definition TIMSTR_init :: "targs \<Rightarrow> sim \<Rightarrow> error + (tloc \<times> sim)" where
  "TIMSTR_init a s =
     bind (DTI_of a s) (\<lambda>dti.
     let t0 = (if aKRR a = 0 then 0 else aDTBEGX a);
         l = \<lparr> T = t0, DT = dti, DTI = dti, JGI = 1, JGF = 2, JFLAG = 0, IADV = 1,
               STOT = Some 0 \<rparr> in
     bind (if aKRR a = 0
           then bind (DATA_set 0 (K s) (Some t0) s) (DATA_set 1 (K s) (Some 0))
           else Inr s) (\<lambda>s1.
     bind (if aIHFLW a = 1 \<and> aKRR a = 0
           then bind (DATA_set 2 (K s1) (Some 1) s1) (\<lambda>s2.
                bind (strain_rate_init a s2 t0) (\<lambda>v.
                case v of None \<Rightarrow> Inr s2 | Some x \<Rightarrow> DATA_set 3 (K s2) (Some x) s2))
           else Inr s1) (\<lambda>s3.
     Inr (l, if aKRR a = 0 then init_TEM s3 else s3))))"

definition TIMSTR :: "targs \<Rightarrow> sim \<Rightarrow> (error + sim) option" where
  "TIMSTR a s =
     (case TIMSTR_init a s of Inl e \<Rightarrow> Some (Inl e) | Inr ls \<Rightarrow> TIMSTR_loop a ls)"

subsection \<open>set_dless_constants\<close>

text \<open>
  One pass of the regime-4 fixed-point loop: from the current \<^verbatim>\<open>GP1\<close> to the new
  \<^verbatim>\<open>WAVEN\<close> and the next \<^verbatim>\<open>GP1\<close> (the local \<^verbatim>\<open>GP2\<close> of that function).
\<close>

definition regime4_step ::
  "real \<Rightarrow> real \<Rightarrow> real \<Rightarrow> real \<Rightarrow> real \<Rightarrow> error + (real \<times> real)" where
  "regime4_step dtend1 cycles CG ampl gp1 =
     bind (py_div gp1 (PI * ampl)) (\<lambda>r.
     bind (py_div dtend1 (cycles + r)) (\<lambda>WAVEL.
     bind (py_div (2 * PI) WAVEL) (\<lambda>waven.
     bind (py_div (2 * PI * dtend1) WAVEL) (\<lambda>ALOB.
     bind (py_div (ampl * WAVEL) (2 * PI * dtend1)) (\<lambda>BLOB.
     bind (py_div WAVEL (2 * PI * ampl * dtend1)) (\<lambda>CLOB.
     bind (py_div (2 * gp1) ampl) (\<lambda>ph.
     Inr (waven, CG + BLOB * (cos (ALOB - ph) - 1) + (gp1 ^ 2 * CLOB)))))))))"

text \<open>The loop has no iteration cap: \<open>None\<close> stands for a run that never leaves it.\<close>

partial_function (option) regime4_loop ::
  "real \<Rightarrow> real \<Rightarrow> real \<Rightarrow> real \<Rightarrow> real \<Rightarrow> (error + (real \<times> real)) option" where
  "regime4_loop dtend1 cycles CG ampl gp1 =
     (case regime4_step dtend1 cycles CG ampl gp1 of
        Inl e \<Rightarrow> Some (Inl e)
      | Inr (waven, gp2) \<Rightarrow>
          if \<bar>gp2 - gp1\<bar> > 1 / 10 ^ 6 then regime4_loop dtend1 cycles CG ampl gp2
          else Some (Inr (waven, gp2)))"

text \<open>
  The values printed after the regime-4 loop divide by \<^verbatim>\<open>WAVEN\<close> and \<^verbatim>\<open>AMPL\<close>, which
  are non-zero once the loop has been left without an error; printing is not modelled.
\<close>

definition set_dless_constants ::
  "params \<Rightarrow> derived \<Rightarrow> real \<Rightarrow> sim \<Rightarrow> (error + sim) option" where
  "set_dless_constants p d beta1 s =
     (if ITYPE1 p = 1 then
        Some (bind (py_log beta1) (\<lambda>l. bind (py_div l (DTEND1 d)) (\<lambda>g. Inr (s\<lparr>GP1 := g\<rparr>))))
      else if ITYPE1 p = 2 then
        Some (bind (py_log beta1) (\<lambda>l.
              bind (py_div (- DTEND1 d) (DTAUS d)) (\<lambda>q.
              bind (py_div l (1 - exp q)) (\<lambda>g. Inr (s\<lparr>GP1 := g\<rparr>)))))
      else if ITYPE1 p = 3 then
        Some (bind (py_log beta1) (\<lambda>l.
              bind (py_div (DTEND1 d) (DTAUS d)) (\<lambda>q.
              bind (py_div l (exp q - 1)) (\<lambda>g. Inr (s\<lparr>GP1 := g\<rparr>)))))
      else if ITYPE1 p = 4 then
        (case bind (py_log beta1) (\<lambda>l.
              bind (py_div l (DTEND1 d)) (\<lambda>g.
              bind (py_log beta1) (\<lambda>l2.
              bind (py_div (FRAC p * l2) (DTEND1 d)) (\<lambda>am. Inr (g, am))))) of
           Inl e \<Rightarrow> Some (Inl e)
         | Inr (g, am) \<Rightarrow>
             (case regime4_loop (DTEND1 d) (CYCLES p) g am g of
                None \<Rightarrow> None
              | Some (Inl e) \<Rightarrow> Some (Inl e)
              | Some (Inr (waven, g')) \<Rightarrow>
                  Some (Inr (s\<lparr>GP1 := g', AMPL := am, WAVEN := waven\<rparr>))))
      else Some (Inr s))"

subsection \<open>COMPAC\<close>

text \<open>Python list reads and writes at \<^verbatim>\<open>[j-1]\<close> and \<^verbatim>\<open>[j]\<close>.\<close>

definition list_get :: "'a list \<Rightarrow> nat \<Rightarrow> error + 'a" where
  "list_get xs i = (if i < length xs then Inr (xs ! i) else Inl IndexError)"

definition list_set :: "'a list \<Rightarrow> nat \<Rightarrow> 'a \<Rightarrow> error + 'a list" where
  "list_set xs i v = (if i < length xs then Inr (xs[i := v]) else Inl IndexError)"

text \<open>The constants \<^verbatim>\<open>COMPAC\<close> computes before its loop, and the row value it works on.\<close>

record compac_consts =
  cRHOA :: real
  cDLOB :: real
  cELOB :: real
  cFLOB :: real
  cCONST :: real

text \<open>
  The Newton-Raphson loop for one row: \<open>F\<close> is the thirty-cell list \<^verbatim>\<open>F\<close>, \<open>J\<close> the
  counter and \<open>S\<close> the row's \<^verbatim>\<open>DATA[1][I-1]\<close>.  It returns the list and the counter
  with which the loop is left.
\<close>

function NR_loop ::
  "compac_consts \<Rightarrow> real \<Rightarrow> real option list \<Rightarrow> nat \<Rightarrow> error + (real option list \<times> nat)" where
  "NR_loop c S F J =
     bind (bind (py_idx (length F) J) (list_get F)) (\<lambda>cell.
     bind (num cell) (\<lambda>x.
     bind (py_div (- x) (cCONST c)) (\<lambda>q.
     let X1 = x * cDLOB c - S * cRHOA c + cELOB c * (1 - exp q);
         X2 = cDLOB c + cFLOB c * exp q in
     bind (py_div X1 X2) (\<lambda>r.
     bind (list_set F J (Some (x - r))) (\<lambda>F'.
     let ERROR = \<bar>(x - r) - x\<bar> in
     if ERROR > 1 / 10 ^ 5 then
       (if J + 1 \<ge> 30 then Inr (F', J + 1) else NR_loop c S F' (J + 1))
     else Inr (F', J))))))"
  by pat_completeness auto
termination
  by (relation "measure (\<lambda>(c, S, F, J). 30 - J)") auto

text \<open>The body of \<^verbatim>\<open>for I in range(1, NPTS+1)\<close> for one row.\<close>

definition COMPAC_row ::
  "compac_consts \<Rightarrow> real \<Rightarrow> nat \<Rightarrow> real option list \<times> sim \<Rightarrow> error + (real option list \<times> sim)"
  where
  "COMPAC_row c ALOB I Fs =
     (case Fs of (F, s) \<Rightarrow>
      bind (DATA_get 0 I s) (\<lambda>t.
      if t = None then Inr (F, s)
      else
        bind (DATA_get 1 I s) (\<lambda>cell.
        bind (num cell) (\<lambda>S.
        bind (list_set F 0 (Some (S * ALOB))) (\<lambda>F1.
        bind (NR_loop c S F1 1) (\<lambda>(F2, J).
        bind (list_get F2 J) (\<lambda>v.
        bind (DATA_set 1 I v s) (\<lambda>s'. Inr (F2, s')))))))))"

fun COMPAC_rows ::
  "compac_consts \<Rightarrow> real \<Rightarrow> nat list \<Rightarrow> real option list \<times> sim
   \<Rightarrow> error + (real option list \<times> sim)" where
  "COMPAC_rows c ALOB [] Fs = Inr Fs"
| "COMPAC_rows c ALOB (I # Is) Fs = bind (COMPAC_row c ALOB I Fs) (COMPAC_rows c ALOB Is)"

definition COMPAC :: "params \<Rightarrow> derived \<Rightarrow> nat \<Rightarrow> sim \<Rightarrow> error + sim" where
  "COMPAC p d NPTS s =
     bind (py_div (RHOA d) (RHOA d - RHOS p)) (\<lambda>ALOB.
     let c = \<lparr> cRHOA = RHOA d, cDLOB = RHOA d - RHOS p,
               cELOB = PHI0 p * CONST' p * (RHOS p - RHOW),
               cFLOB = PHI0 p * (RHOS p - RHOW), cCONST = CONST' p \<rparr> in
     bind (COMPAC_rows c ALOB [1 ..< NPTS + 1] (replicate 30 None, s)) (\<lambda>(F, s'). Inr s'))"

subsection \<open>run\<close>

text \<open>The argument lists of the three calls of \<^verbatim>\<open>TIMSTR\<close> in \<^verbatim>\<open>run\<close>.\<close>

definition args1 :: "params \<Rightarrow> derived \<Rightarrow> real \<Rightarrow> sim \<Rightarrow> targs" where
  "args1 p d beta1 s =
     \<lparr> aG = GP1 s, aDTEND = DTEND1 d, aDTSTOP = DTSTOP d, aDTAUS = DTAUS d,
       aCONBET = CONBET d, aCONTRM = CONTRM d, aDTBEGX = DTBEG2 d, aDTBEGY = DTBEG3 d,
       aDTST = DTST d, aITYPE = ITYPE1 p, aIHFLW = IHFLW, aKRR = 0, aIRIFT = IRIFT p,
       aBETA1 = beta1, aCONB1 = CONB1 d, aCONB2 = CONB2 d \<rparr>"

definition args2 :: "params \<Rightarrow> derived \<Rightarrow> real \<Rightarrow> targs" where
  "args2 p d beta1 =
     \<lparr> aG = GP2 d, aDTEND = DTEND2 d, aDTSTOP = DTSTOP d, aDTAUS = DTAUS d,
       aCONBET = CONBET d, aCONTRM = CONTRM d, aDTBEGX = DTBEG2 d, aDTBEGY = DTBEG3 d,
       aDTST = DTST d, aITYPE = ITYPE2 p, aIHFLW = IHFLW, aKRR = 1, aIRIFT = IRIFT p,
       aBETA1 = beta1, aCONB1 = CONB1 d, aCONB2 = CONB2 d \<rparr>"

definition args3 :: "params \<Rightarrow> derived \<Rightarrow> real \<Rightarrow> targs" where
  "args3 p d beta12 =
     \<lparr> aG = GP3 d, aDTEND = DTEND3 d, aDTSTOP = DTSTOP d, aDTAUS = DTAUS d,
       aCONBET = CONBET d, aCONTRM = CONTRM d, aDTBEGX = DTBEG3 d, aDTBEGY = DTBEG3 d,
       aDTST = DTST d, aITYPE = ITYPE3 p, aIHFLW = IHFLW, aKRR = 2, aIRIFT = IRIFT p,
       aBETA1 = beta12, aCONB1 = CONB1 d, aCONB2 = CONB2 d \<rparr>"

text \<open>Sequencing of steps that may raise or may not return.\<close>

definition obind ::
  "(error + 'a) option \<Rightarrow> ('a \<Rightarrow> (error + 'b) option) \<Rightarrow> (error + 'b) option" where
  "obind m f = (case m of None \<Rightarrow> None | Some (Inl e) \<Rightarrow> Some (Inl e) | Some (Inr x) \<Rightarrow> f x)"

text \<open>
  The body of the sweep loop up to the increment of \<^verbatim>\<open>BETA1\<close>: the forcing of the
  first episode and the solver runs.  \<^verbatim>\<open>BETA12\<close> is bound only when \<^verbatim>\<open>IRIFT == 3\<close>.
\<close>

definition beta_pass :: "params \<Rightarrow> derived \<Rightarrow> real \<Rightarrow> sim \<Rightarrow> (error + sim) option" where
  "beta_pass p d beta1 s =
     (let BETA12 = (if IRIFT p = 3 then Some (beta1 * BETA2 p) else None) in
      obind (set_dless_constants p d beta1 s) (\<lambda>s1.
      obind (TIMSTR (args1 p d beta1 s1) s1) (\<lambda>s2.
      obind (if IRIFT p \<ge> 2 then TIMSTR (args2 p d beta1) s2 else Some (Inr s2)) (\<lambda>s3.
      if IRIFT p \<ge> 3 then
        (case BETA12 of None \<Rightarrow> Some (Inl UnboundLocalError)
                      | Some b \<Rightarrow> TIMSTR (args3 p d b) s3)
      else Some (Inr s3)))))"

text \<open>
  The separator written between two beta groups:
  \<^verbatim>\<open>K = K+1; DATA[0][K-1] = None; DATA[1][K-1] = None; K = K + 1\<close>.
\<close>

definition sentinel :: "sim \<Rightarrow> error + sim" where
  "sentinel s =
     (let s1 = s\<lparr>K := K s + 1\<rparr> in
      bind (DATA_set 0 (K s1) None s1) (\<lambda>s2.
      bind (DATA_set 1 (K s2) None s2) (\<lambda>s3.
      Inr (s3\<lparr>K := K s3 + 1\<rparr>))))"

text \<open>The sweep loop \<^verbatim>\<open>while(1)\<close> of \<^verbatim>\<open>run\<close>, entered with \<^verbatim>\<open>BETA1 = BETMIN\<close>.\<close>

partial_function (option) sweep ::
  "params \<Rightarrow> derived \<Rightarrow> real \<Rightarrow> sim \<Rightarrow> (error + sim) option" where
  "sweep p d beta1 s =
     (case beta_pass p d beta1 s of
        None \<Rightarrow> None
      | Some (Inl e) \<Rightarrow> Some (Inl e)
      | Some (Inr s1) \<Rightarrow>
          if beta1 + BETINC p \<le> BETMAX p then
            (case sentinel s1 of
               Inl e \<Rightarrow> Some (Inl e)
             | Inr s2 \<Rightarrow> sweep p d (beta1 + BETINC p) s2)
          else Some (Inr s1))"

text \<open>
  The finalisation pass over the rows \<open>1..K\<close>: calendar time, and with \<^verbatim>\<open>IHFLW == 1\<close>
  dimensional heat flow and strain rate.  Separator rows are skipped.
\<close>

definition finalise_row :: "params \<Rightarrow> derived \<Rightarrow> nat \<Rightarrow> sim \<Rightarrow> error + sim" where
  "finalise_row p d I s =
     bind (DATA_get 0 I s) (\<lambda>c.
     case c of
       None \<Rightarrow> Inr s
     | Some dt \<Rightarrow>
         bind (DATA_set 0 I (Some (dimensionalise_time (TBEG1 p) (TIMSC d) dt)) s) (\<lambda>s1.
         if IHFLW = 1 then
           bind (DATA_get 2 I s1) (\<lambda>h.
           bind (num h) (\<lambda>hv.
           bind (DATA_set 2 I (Some (hv * CONDTY)) s1) (\<lambda>s2.
           bind (DATA_get 3 I s2) (\<lambda>e.
           bind (num e) (\<lambda>ev.
           bind (py_div ev (TIMSC d)) (\<lambda>q.
           DATA_set 3 I (Some q) s2))))))
         else Inr s1))"

fun finalise_rows :: "params \<Rightarrow> derived \<Rightarrow> nat list \<Rightarrow> sim \<Rightarrow> error + sim" where
  "finalise_rows p d [] s = Inr s"
| "finalise_rows p d (I # Is) s = bind (finalise_row p d I s) (finalise_rows p d Is)"

text \<open>
  The set-up of \<^verbatim>\<open>run\<close> before the sweep: the validation, the lithospheric thickness,
  the dimensionless schedule and the subsidence constants.
\<close>

definition run_setup :: "params \<Rightarrow> derived \<Rightarrow> error + derived" where
  "run_setup p d =
     bind (check_cfg p) (\<lambda>_.
     bind (calculate_TL (TC p)) (\<lambda>(tl, reported).
     bind (nondimensionalise_parameters p (d\<lparr>TL := tl\<rparr>)) (\<lambda>d1.
     setup_constants p d1)))"

text \<open>
  The resets at the start of \<^verbatim>\<open>run\<close>: the counter, the regime-4 constants, the carry
  state, and the two freshly allocated tables.  (The source allocates the tables after
  \<^verbatim>\<open>check_cfg\<close>; a failed check returns no state, so the order does not show.)
\<close>

definition run_reset :: "sim \<Rightarrow> sim" where
  "run_reset s = s\<lparr>K := 1, AMPL := 1, WAVEN := 1, SINIT := 0, TRINIT := 0,
                   DATA := (\<lambda>r c. None), TEM := (\<lambda>r c. None)\<rparr>"

text \<open>
  \<^verbatim>\<open>run\<close> on the globals \<open>d\<close> and \<open>s\<close> left by the module or an earlier run.  It
  returns the globals as they are before \<^verbatim>\<open>WRITE\<close>, which only formats the table.
\<close>

definition run :: "params \<Rightarrow> derived \<Rightarrow> sim \<Rightarrow> (error + (derived \<times> sim)) option" where
  "run p d s =
     (case run_setup p d of
        Inl e \<Rightarrow> Some (Inl e)
      | Inr d1 \<Rightarrow>
          obind (sweep p d1 (BETMIN p) (run_reset s)) (\<lambda>s2.
          Some (bind (finalise_rows p d1 [1 ..< K s2 + 1] s2) (\<lambda>s3.
                bind (if ICOMP p = 1 then COMPAC p d1 (K s3) s3 else Inr s3) (\<lambda>s4.
                Inr (d1, s4))))))"

text \<open>The time column of the rows \<open>1..K\<close> of the table, a separator row being \<open>None\<close>.\<close>

definition times :: "sim \<Rightarrow> real option list" where
  "times s = map (DATA s 0) [0 ..< K s]"

section \<open>Invariants used in the proofs\<close>

text \<open>
  The states the loop of \<^verbatim>\<open>TIMSTR\<close> passes through: the state it is entered with, and
  the state after every completed iteration.
\<close>

inductive loop_reach :: "targs \<Rightarrow> tloc \<times> sim \<Rightarrow> tloc \<times> sim \<Rightarrow> bool" for a ls where
  start: "loop_reach a ls ls"
| step: "loop_reach a ls ls1 \<Longrightarrow> TIMSTR_body a ls1 = Inr (go, l2, s2) \<Longrightarrow> loop_reach a ls (l2, s2)"

text \<open>What no row of the table touches: the temperature buffers and the regime constants.\<close>

definition kept :: "sim \<Rightarrow> sim \<Rightarrow> bool" where
  "kept s s' = (TEM s' = TEM s \<and> AMPL s' = AMPL s \<and> WAVEN s' = WAVEN s \<and> GP1 s' = GP1 s)"

definition amp_eq :: "sim \<Rightarrow> sim \<Rightarrow> bool" where
  "amp_eq s s' = (AMPL s' = AMPL s \<and> WAVEN s' = WAVEN s \<and> GP1 s' = GP1 s)"

text \<open>
  Both buffers hold a number at each of the 21 nodes, and the two buffer numbers are 1 and
  2 in one of the two orders.
\<close>

definition tem_ok :: "sim \<Rightarrow> bool" where
  "tem_ok s = (\<forall>r<2. \<forall>c<JNP1. TEM s r c \<noteq> None)"

definition buf_ok :: "tloc \<Rightarrow> bool" where
  "buf_ok l = ((JGI l = 1 \<and> JGF l = 2) \<or> (JGI l = 2 \<and> JGF l = 1))"

text \<open>
  The rows \<open>k0..K\<close> of the table form a group with the times \<open>g\<close>; a row with a time
  also has a heat flow and a strain rate.
\<close>

definition grp :: "nat \<Rightarrow> sim \<Rightarrow> real list \<Rightarrow> bool" where
  "grp k0 s g = (1 \<le> k0 \<and> k0 \<le> K s \<and> map (DATA s 0) [k0 - 1 ..< K s] = map Some g)"

definition rows_full :: "sim \<Rightarrow> bool" where
  "rows_full s = (\<forall>c<K s. DATA s 0 c \<noteq> None \<longrightarrow> DATA s 2 c \<noteq> None \<and> DATA s 3 c \<noteq> None)"

text \<open>
  The four situations the step control of \<^verbatim>\<open>TIMSTR\<close> can be in when stretching ends
  before the halt time: stepping towards the end of stretching, the clipped step onto it,
  conductive stepping, and the clipped step onto the halt time; and the time that is left,
  used as the measure of termination.
\<close>

definition phase_ok :: "targs \<Rightarrow> tloc \<Rightarrow> bool" where
  "phase_ok a l = (0 < DTI l \<and> buf_ok l \<and>
     ((JFLAG l = 0 \<and> IADV l = 1 \<and> DT l = DTI l \<and> T l + DTI l \<le> aDTEND a)
    \<or> (JFLAG l = 1 \<and> IADV l = 1 \<and> DT l = aDTEND a - T l \<and> 0 \<le> DT l)
    \<or> (JFLAG l = 1 \<and> IADV l = 0 \<and> DT l = DTI l \<and> aDTEND a \<le> T l
         \<and> T l + DTI l < DTHALT_of a)
    \<or> (JFLAG l = 2 \<and> (IADV l = 0 \<or> IADV l = 1) \<and> DT l = DTHALT_of a - T l \<and> 0 < DT l
         \<and> aDTEND a \<le> T l)))"

definition pot :: "targs \<Rightarrow> tloc \<Rightarrow> real" where
  "pot a l = DTHALT_of a - T l + (if IADV l = 1 \<and> JFLAG l \<noteq> 2 then DTI l else 0)"


text \<open>
  An argument list for a first episode in regime 1, on which the solver is exercised.
\<close>

definition example_args :: targs where
  "example_args = \<lparr> aG = 4, aDTEND = 1 / 10, aDTSTOP = 3 / 10, aDTAUS = 1 / 10,
     aCONBET = 5000, aCONTRM = 6000, aDTBEGX = 0, aDTBEGY = 0, aDTST = 1 / 500,
     aITYPE = 1, aIHFLW = 1, aKRR = 0, aIRIFT = 1, aBETA1 = 3 / 2, aCONB1 = 1, aCONB2 = 1 \<rparr>"

section \<open>Properties\<close>

subsection \<open>Sequencing and the constants of the set-up\<close>

lemma bind_Inr [simp]: "bind (Inr x) f = f x"
  by (simp add: bind_def)

lemma bind_Inl [simp]: "bind (Inl e) f = Inl e"
  by (simp add: bind_def)

lemma bind_eq_Inr: "bind m f = Inr y \<longleftrightarrow> (\<exists>x. m = Inr x \<and> f x = Inr y)"
  by (cases m) simp_all

lemma AINT_val: "AINT = 0.07323502"
  by (simp add: AINT_def RHOM_def TEXPAN_def TASTH_def)

lemma BINT_val: "BINT tc = 0.57 * tc - 8398.53462"
  by (simp add: BINT_def RHOM_def TEXPAN_def TASTH_def RHOW_def DW_def RHOC_def TCO_def algebra_simps)

lemma CINT_val: "CINT tc = 0.012460884 * tc ^ 2"
  by (simp add: CINT_def RHOM_def TEXPAN_def TASTH_def RHOC_def algebra_simps)

lemma calculate_TL_thin_crust:
  assumes "BINT tc < 0" "0 < CINT tc" "0 \<le> (BINT tc)^2 - 4 * AINT * CINT tc" "0 \<le> tc"
  shows "calculate_TL tc = Inl UnboundLocalError"
proof -
  let ?d = "(BINT tc)^2 - 4 * AINT * CINT tc"
  have A: "0 < AINT" by (simp add: AINT_val)
  have "?d < (BINT tc)^2" using A assms(2) by simp
  then have "sqrt ?d < sqrt ((BINT tc)^2)" using real_sqrt_less_iff by blast
  then have s: "sqrt ?d < - BINT tc" using assms(1) by simp
  have s0: "0 \<le> sqrt ?d" using assms(3) by simp
  have r1: "0 < (- BINT tc + sqrt ?d) / (2 * AINT)"
    using A s0 assms(1) by (intro divide_pos_pos) linarith+
  have r2: "0 < (- BINT tc - sqrt ?d) / (2 * AINT)"
    using A s by (intro divide_pos_pos) linarith+
  show ?thesis
    using r1 r2 assms(3,4)
    by (auto simp: calculate_TL_def py_sqrt_def Let_def)
qed

lemma calculate_TL_thick_crust:
  assumes B: "0 < BINT tc" and C: "0 < CINT tc"
    and D: "0 \<le> (BINT tc)^2 - 4 * AINT * CINT tc"
    and tc: "tc < BINT tc / (2 * AINT)"
  shows "\<exists>tl. calculate_TL tc = Inr (tl, False) \<and> BINT tc / (2 * AINT) \<le> tl
               \<and> tl \<le> BINT tc / AINT"
proof -
  let ?d = "(BINT tc)^2 - 4 * AINT * CINT tc"
  have A: "0 < AINT" by (simp add: AINT_val)
  have "?d < (BINT tc)^2" using A C by simp
  then have "sqrt ?d < sqrt ((BINT tc)^2)" using real_sqrt_less_iff by blast
  then have s: "sqrt ?d < BINT tc" using B by simp
  have s0: "0 \<le> sqrt ?d" using D by simp
  have r1: "(- BINT tc + sqrt ?d) / (2 * AINT) < 0"
    using A s by (intro divide_neg_pos) linarith+
  let ?tl = "- ((- BINT tc - sqrt ?d) / (2 * AINT))"
  have tl: "?tl = (BINT tc + sqrt ?d) / (2 * AINT)"
  proof -
    have "- (- BINT tc - sqrt ?d) = BINT tc + sqrt ?d" by linarith
    then show ?thesis by (metis minus_divide_left)
  qed
  have lo: "BINT tc / (2 * AINT) \<le> ?tl"
    unfolding tl using A s0 by (intro divide_right_mono) linarith+
  have "?tl \<le> (BINT tc + BINT tc) / (2 * AINT)"
    unfolding tl using A s by (intro divide_right_mono) linarith+
  then have hi: "?tl \<le> BINT tc / AINT" by simp
  have gt: "tc < ?tl" using tc lo by linarith
  have "calculate_TL tc = Inr (?tl, False)"
    using r1 D gt by (simp add: calculate_TL_def py_sqrt_def Let_def)
  then show ?thesis using lo hi by blast
qed

lemma calculate_TL_default:
  "\<exists>tl. calculate_TL 30000 = Inr (tl, False) \<and> 59000 \<le> tl \<and> tl \<le> 119000"
proof -
  have "\<exists>tl. calculate_TL 30000 = Inr (tl, False) \<and> BINT 30000 / (2 * AINT) \<le> tl
               \<and> tl \<le> BINT 30000 / AINT"
    by (rule calculate_TL_thick_crust)
       (simp_all add: BINT_val CINT_val AINT_val power2_eq_square)
  then obtain tl where t: "calculate_TL 30000 = Inr (tl, False)"
     "BINT 30000 / (2 * AINT) \<le> tl" "tl \<le> BINT 30000 / AINT" by blast
  have "59000 \<le> BINT 30000 / (2 * AINT)" by (simp add: BINT_val AINT_val)
  moreover have "BINT 30000 / AINT \<le> 119000" by (simp add: BINT_val AINT_val)
  ultimately show ?thesis using t by (intro exI[of _ tl]) linarith
qed


lemma nondim_ok:
  assumes "TIMSC0 = (TL d) ^ 2 / (DIFFUS * (3.15 * 10 ^ 13))" "TL d \<noteq> 0"
  shows "\<exists>d'. nondimensionalise_parameters p d = Inr d' \<and> TIMSC d' = TIMSC0
      \<and> TL d' = TL d \<and> GP3 d' = GP3 d \<and> GP2 d' = GP2 d
      \<and> (IRIFT p \<ge> 1 \<longrightarrow> DTBEG1 d' = 0 \<and> DTEND1 d' = (TBEG1 p - TEND1 p) / TIMSC0)
      \<and> (IRIFT p \<ge> 2 \<longrightarrow> DTBEG2 d' = (TBEG1 p - TBEG2 p) / TIMSC0 \<and> DTEND2 d' = (TBEG1 p - TEND2 p) / TIMSC0)
      \<and> (IRIFT p \<ge> 3 \<longrightarrow> DTBEG3 d' = (TBEG1 p - TBEG3 p) / TIMSC0 \<and> DTEND3 d' = (TBEG1 p - TEND3 p) / TIMSC0)
      \<and> DTSTOP d' = (TBEG1 p - TSTOP p) / TIMSC0 \<and> DTST d' = 1 / TIMSC0 \<and> DTAUS d' = TAUS / TIMSC0"
proof -
  have "TIMSC0 \<noteq> 0" using assms by (auto simp: DIFFUS_def)
  then show ?thesis
    unfolding nondimensionalise_parameters_def Let_def assms(1)[symmetric]
    by (simp add: nondim_def py_div_def)
qed


lemma RHOA_val: "RHOM * (1 - TEXPAN * TASTH) = 3.20352996"
  by (simp add: RHOM_def TEXPAN_def TASTH_def)

lemma bindE:
  assumes "bind m f = Inr y"
  obtains x where "m = Inr x" "f x = Inr y"
  using assms by (cases m) simp_all

lemma load_constants_keeps:
  assumes "load_constants p rhoa d = Inr d'"
  shows "TIMSC d' = TIMSC d \<and> DTEND1 d' = DTEND1 d \<and> DTSTOP d' = DTSTOP d \<and> DTST d' = DTST d
       \<and> DTBEG3 d' = DTBEG3 d \<and> DTEND3 d' = DTEND3 d \<and> GP3 d' = GP3 d"
  using assms unfolding load_constants_def
  by (auto elim!: bindE split: if_splits)

lemma later_forcing_keeps:
  assumes "later_forcing p d = Inr d'"
  shows "TIMSC d' = TIMSC d \<and> DTEND1 d' = DTEND1 d \<and> DTSTOP d' = DTSTOP d \<and> DTST d' = DTST d
       \<and> DTBEG3 d' = DTBEG3 d \<and> DTEND3 d' = DTEND3 d
       \<and> (IRIFT p \<le> 1 \<or> 3 \<le> IRIFT p \<longrightarrow> GP3 d' = GP3 d)"
  using assms unfolding later_forcing_def
  by (auto elim!: bindE split: if_splits)

lemma setup_constants_keeps:
  assumes "setup_constants p d = Inr d'"
  shows "TIMSC d' = TIMSC d \<and> DTEND1 d' = DTEND1 d \<and> DTSTOP d' = DTSTOP d \<and> DTST d' = DTST d
       \<and> DTBEG3 d' = DTBEG3 d \<and> DTEND3 d' = DTEND3 d
       \<and> (IRIFT p \<le> 1 \<or> 3 \<le> IRIFT p \<longrightarrow> GP3 d' = GP3 d)"
proof -
  from assms obtain d1 c1 c2 where
    a: "load_constants p (RHOM * (1.0 - (TEXPAN * TASTH)))
          (d\<lparr>RHOA := RHOM * (1.0 - (TEXPAN * TASTH))\<rparr>) = Inr d1" and
    b: "later_forcing p (d1\<lparr>CONB1 := c1, CONB2 := c2\<rparr>) = Inr d'"
    unfolding setup_constants_def Let_def by (elim bindE)
  from load_constants_keeps [OF a] later_forcing_keeps [OF b] show ?thesis by simp
qed

lemma setup_constants_IRIFT3:
  assumes "IRIFT p \<ge> 3" "setup_constants p d = Inr d'"
  shows "GP3 d' = GP3 d \<and> DTBEG3 d' = DTBEG3 d \<and> DTEND3 d' = DTEND3 d \<and> TIMSC d' = TIMSC d"
  using setup_constants_keeps [OF assms(2)] assms(1) by simp

subsection \<open>Set-up of a run\<close>



text \<open>
  Claim C8.  The claim says that a lithospheric thickness not above the crustal thickness
  is reported and that execution continues.  For the crustal thickness of 10 km the
  balance gives a negative thickness; the ERROR line is printed, and the final
  \<^verbatim>\<open>print\<close> then reads the local \<^verbatim>\<open>TLM\<close>, which was assigned only under
  \<^verbatim>\<open>TL >= TC\<close>: the function ends in UnboundLocalError.
\<close>

theorem C8_thin_crust_aborts: "calculate_TL 10000 = Inl UnboundLocalError"
  by (rule calculate_TL_thin_crust) (simp_all add: BINT_val CINT_val AINT_val power2_eq_square)

text \<open>
  Claim C3.  When some active episode \<open>i \<le> IRIFT\<close> has \<open>TBEGi \<le> TENDi\<close>, the
  validation fails and the run ends in AssertionError, before the lithospheric thickness
  is computed or a solver is called.  When every active episode has \<open>TBEGi > TENDi\<close>,
  the validation passes and the set-up goes on with the lithospheric thickness, the
  dimensionless schedule and the subsidence constants.
\<close>

theorem C3_ordering_validation:
  "(((IRIFT p \<ge> 1 \<and> TBEG1 p \<le> TEND1 p) \<or> (IRIFT p \<ge> 2 \<and> TBEG2 p \<le> TEND2 p)
      \<or> (IRIFT p \<ge> 3 \<and> TBEG3 p \<le> TEND3 p))
     \<longrightarrow> check_cfg p = Inl AssertionError \<and> run p d s = Some (Inl AssertionError))
   \<and> (((IRIFT q \<ge> 1 \<longrightarrow> TBEG1 q > TEND1 q) \<and> (IRIFT q \<ge> 2 \<longrightarrow> TBEG2 q > TEND2 q)
      \<and> (IRIFT q \<ge> 3 \<longrightarrow> TBEG3 q > TEND3 q))
     \<longrightarrow> check_cfg q = Inr ()
       \<and> run_setup q d = bind (calculate_TL (TC q)) (\<lambda>(tl, reported).
                         bind (nondimensionalise_parameters q (d\<lparr>TL := tl\<rparr>)) (setup_constants q)))"
proof (intro conjI impI)
  assume bad: "(IRIFT p \<ge> 1 \<and> TBEG1 p \<le> TEND1 p) \<or> (IRIFT p \<ge> 2 \<and> TBEG2 p \<le> TEND2 p)
      \<or> (IRIFT p \<ge> 3 \<and> TBEG3 p \<le> TEND3 p)"
  then show c: "check_cfg p = Inl AssertionError"
    by (auto simp: check_cfg_def)
  then show "run p d s = Some (Inl AssertionError)"
    by (simp add: run_def run_setup_def)
next
  assume good: "(IRIFT q \<ge> 1 \<longrightarrow> TBEG1 q > TEND1 q) \<and> (IRIFT q \<ge> 2 \<longrightarrow> TBEG2 q > TEND2 q)
      \<and> (IRIFT q \<ge> 3 \<longrightarrow> TBEG3 q > TEND3 q)"
  then show c: "check_cfg q = Inr ()"
    by (auto simp: check_cfg_def)
  then show "run_setup q d = bind (calculate_TL (TC q)) (\<lambda>(tl, reported).
                         bind (nondimensionalise_parameters q (d\<lparr>TL := tl\<rparr>)) (setup_constants q))"
    by (simp add: run_setup_def)
qed

theorem C3_ordering_validation_witness:
  "check_cfg (INITVR\<lparr>TEND1 := 160\<rparr>) = Inl AssertionError
   \<and> run (INITVR\<lparr>TEND1 := 160\<rparr>) derived0 sim0 = Some (Inl AssertionError)
   \<and> check_cfg INITVR = Inr ()
   \<and> run_setup INITVR derived0 = bind (calculate_TL (TC INITVR)) (\<lambda>(tl, reported).
       bind (nondimensionalise_parameters INITVR (derived0\<lparr>TL := tl\<rparr>)) (setup_constants INITVR))"
  using C3_ordering_validation [of "INITVR\<lparr>TEND1 := 160\<rparr>" derived0 sim0 INITVR]
  by (simp add: INITVR_def)

text \<open>
  Claim C2.  The claim says that in a three-episode run the strain-rate magnitude given to
  the solver for the third episode is \<open>ln BETA3 / (DTEND3 - DTBEG3)\<close> in regime 1.  In
  \<^verbatim>\<open>setup_constants\<close> the branch for the third episode is the \<^verbatim>\<open>elif\<close> of
  \<^verbatim>\<open>if IRIFT >= 2\<close>, so it is never taken: with the INITVR values and \<open>IRIFT = 3\<close> the
  set-up succeeds, the third call of the solver is given the module's initial
  \<open>GP3 = 0\<close>, and the regime-1 formula would have given a positive value.
\<close>

theorem C2_third_forcing_not_derived:
  "\<exists>d. run_setup (INITVR\<lparr>IRIFT := 3\<rparr>) derived0 = Inr d
       \<and> aG (args3 (INITVR\<lparr>IRIFT := 3\<rparr>) d (BETMIN INITVR * BETA2 INITVR)) = 0
       \<and> later_GP (ITYPE3 INITVR) (BETA3 INITVR) (DTBEG3 d) (DTEND3 d) (DTAUS d) (GP3 d)
           = Inr (ln (BETA3 INITVR) / (DTEND3 d - DTBEG3 d))
       \<and> 0 < ln (BETA3 INITVR) / (DTEND3 d - DTBEG3 d)"
proof -
  let ?p = "INITVR\<lparr>IRIFT := 3\<rparr>"
  obtain tl where tl: "calculate_TL 30000 = Inr (tl, False)" "59000 \<le> tl"
    using calculate_TL_default by blast
  let ?d0 = "derived0\<lparr>TL := tl\<rparr>"
  define ts where "ts = (TL ?d0) ^ 2 / (DIFFUS * (3.15 * 10 ^ 13))"
  have tl0: "TL ?d0 \<noteq> 0" using tl(2) by simp
  have ts: "0 < ts" unfolding ts_def using tl(2) by (simp add: DIFFUS_def)
  obtain d1 where d1: "nondimensionalise_parameters ?p ?d0 = Inr d1" "TIMSC d1 = ts"
     "TL d1 = TL ?d0" "GP3 d1 = GP3 ?d0"
     "DTBEG2 d1 = (TBEG1 ?p - TBEG2 ?p) / ts" "DTEND2 d1 = (TBEG1 ?p - TEND2 ?p) / ts"
     "DTBEG3 d1 = (TBEG1 ?p - TBEG3 ?p) / ts" "DTEND3 d1 = (TBEG1 ?p - TEND3 ?p) / ts"
    using nondim_ok [OF ts_def tl0, of ?p] by (auto simp: INITVR_def)
  have e2: "DTEND2 d1 - DTBEG2 d1 = 10 / ts"
    unfolding d1 by (simp add: INITVR_def diff_divide_distrib [symmetric])
  have e3: "DTEND3 d1 - DTBEG3 d1 = 10 / ts"
    unfolding d1 by (simp add: INITVR_def diff_divide_distrib [symmetric])
  have n2: "DTEND2 d1 - DTBEG2 d1 \<noteq> 0" unfolding e2 using ts by simp
  have p3: "0 < DTEND3 d1 - DTBEG3 d1" unfolding e3 using ts by simp
  obtain d2 where d2: "setup_constants ?p d1 = Inr d2"
    using n2
    by (simp add: setup_constants_def load_constants_def later_forcing_def Let_def INITVR_def
        py_div_def py_log_def later_GP_def RHOA_val RHOW_def)
  have keep: "GP3 d2 = GP3 d1 \<and> DTBEG3 d2 = DTBEG3 d1 \<and> DTEND3 d2 = DTEND3 d1 \<and> TIMSC d2 = TIMSC d1"
    by (rule setup_constants_IRIFT3 [OF _ d2]) simp
  have cc: "check_cfg ?p = Inr ()" by (simp add: check_cfg_def INITVR_def)
  have rs: "run_setup ?p derived0 = Inr d2"
    using tl(1) d1(1) d2 cc by (simp add: run_setup_def INITVR_def)
  have g0: "aG (args3 ?p d2 (BETMIN INITVR * BETA2 INITVR)) = 0"
    using keep d1(4) by (simp add: args3_def derived0_def)
  have ln: "0 < ln (BETA3 INITVR)" by (simp add: INITVR_def)
  have p3': "0 < DTEND3 d2 - DTBEG3 d2" using keep p3 by simp
  have lg: "later_GP (ITYPE3 INITVR) (BETA3 INITVR) (DTBEG3 d2) (DTEND3 d2) (DTAUS d2) (GP3 d2)
           = Inr (ln (BETA3 INITVR) / (DTEND3 d2 - DTBEG3 d2))"
    using p3' by (simp add: later_GP_def py_log_def py_div_def INITVR_def)
  show ?thesis using rs g0 lg ln p3' by (intro exI[of _ d2]) simp
qed

subsection \<open>The solver loop\<close>

lemma py_idx_pos: "0 < k \<Longrightarrow> k \<le> n \<Longrightarrow> py_idx n k = Inr (k - 1)"
  by (simp add: py_idx_def)

lemma DATA_set_Inr:
  "DATA_set r k v s = Inr s' \<Longrightarrow>
     \<exists>c. py_idx NDIM2 k = Inr c \<and> s' = s\<lparr>DATA := (DATA s)(r := (DATA s r)(c := v))\<rparr>"
  by (auto simp: DATA_set_def bind_eq_Inr)

lemma kept_refl [simp]: "kept s s"
  by (simp add: kept_def)

lemma kept_trans: "kept s s1 \<Longrightarrow> kept s1 s2 \<Longrightarrow> kept s s2"
  by (simp add: kept_def)

lemma kept_TEM: "kept s s' \<Longrightarrow> TEM s' = TEM s"
  by (simp add: kept_def)

lemma DATA_set_TEM: "DATA_set r k v s = Inr s' \<Longrightarrow> kept s s' \<and> K s' = K s"
  by (auto dest: DATA_set_Inr simp: kept_def)

lemma tem_node_Inr:
  "tem_node a l J s = Inr s' \<Longrightarrow>
     \<exists>r x. s' = s\<lparr>TEM := (TEM s)(r := (TEM s r)(J - 1 := Some x))\<rparr>"
  by (auto simp: tem_node_def bind_eq_Inr Let_def split: if_splits)

lemma tem_sweep_keeps:
  "tem_sweep a l Js s = Inr s' \<Longrightarrow> \<forall>J\<in>set Js. J - 1 \<noteq> c \<Longrightarrow>
     TEM s' r c = TEM s r c \<and> K s' = K s \<and> DATA s' = DATA s"
proof (induction Js arbitrary: s)
  case Nil
  then show ?case by simp
next
  case (Cons J Js)
  from Cons.prems(1) obtain s1 where s1: "tem_node a l J s = Inr s1" "tem_sweep a l Js s1 = Inr s'"
    by (auto simp: bind_eq_Inr)
  from tem_node_Inr [OF s1(1)] obtain r' x where
    e: "s1 = s\<lparr>TEM := (TEM s)(r' := (TEM s r')(J - 1 := Some x))\<rparr>" by blast
  have "TEM s1 r c = TEM s r c \<and> K s1 = K s \<and> DATA s1 = DATA s"
    using Cons.prems(2) by (simp add: e)
  moreover have "TEM s' r c = TEM s1 r c \<and> K s' = K s1 \<and> DATA s' = DATA s1"
    using Cons.IH [OF s1(2)] Cons.prems(2) by simp
  ultimately show ?case by simp
qed

lemma kept_TRINIT [simp]: "kept (s\<lparr>TRINIT := x\<rparr>) s' = kept s s'"
  by (simp add: kept_def)

lemma kept_SINIT [simp]: "kept s (s'\<lparr>SINIT := x\<rparr>) = kept s s'"
  by (simp add: kept_def)

lemma kept_K [simp]: "kept (s\<lparr>K := x\<rparr>) s' = kept s s'"
  by (simp add: kept_def)

lemma SUBCAL_TEM:
  assumes "SUBCAL t iadv conbet contrm jnp1 dtend g k jgi dz dtaus itype krr dtbegx beta1 jsubs s = Inr s'"
  shows "kept s s' \<and> K s' = K s"
proof (cases "iadv = 1")
  case True
  with assms obtain trap subs s2 where
    a: "DATA_set 1 k (Some (subs * (1 / 10 ^ 3))) (if t = dtend then s\<lparr>TRINIT := trap\<rparr> else s) = Inr s2"
    and b: "(if t = dtend then bind (DATA_get 1 k s2) (\<lambda>c. bind (num c) (\<lambda>v. Inr (s2\<lparr>SINIT := v\<rparr>))) else Inr s2) = Inr s'"
    unfolding SUBCAL_def Let_def by (auto elim!: bindE)
  from DATA_set_TEM [OF a] have 1: "kept s s2 \<and> K s2 = K s" by (simp split: if_splits)
  from b have "kept s2 s' \<and> K s' = K s2" by (auto elim!: bindE split: if_splits)
  with 1 show ?thesis by (auto intro: kept_trans)
next
  case False
  with assms show ?thesis
    unfolding SUBCAL_def Let_def by (auto elim!: bindE dest!: DATA_set_TEM)
qed

lemma record_row_TEM:
  assumes "record_row a l s = Inr s'"
  shows "kept s s' \<and> K s' = K s + 1"
proof -
  from assms obtain s2 s3 where
    a: "DATA_set 0 (K s + 1) (Some (T l)) (s\<lparr>K := K s + 1\<rparr>) = Inr s2" and
    b: "SUBCAL (T l) (IADV l) (aCONBET a) (aCONTRM a) JNP1 (aDTEND a) (aG a) (K s2)
              (JGI l) DZ (aDTAUS a) (aITYPE a) (aKRR a) (aDTBEGX a) (aBETA1 a) JSUBS s2 = Inr s3" and
    c: "(if aIHFLW a = 1 then
        bind (TEM_at s3 (JGI l) (JN - 1)) (\<lambda>tn.
        bind (DATA_set 2 (K s3) (Some (tn / DZ)) s3) (\<lambda>s4.
        if IADV l = 0 then DATA_set 3 (K s4) (Some 0) s4
        else if IADV l = 1 then
          bind (strain_rate a s4 (T l)) (\<lambda>v.
          case v of None \<Rightarrow> Inr s4 | Some x \<Rightarrow> DATA_set 3 (K s4) (Some x) s4)
        else Inr s4))
      else Inr s3) = Inr s'"
    unfolding record_row_def Let_def by (auto elim!: bindE)
  from DATA_set_TEM [OF a] have 1: "kept s s2 \<and> K s2 = K s + 1" by simp
  from SUBCAL_TEM [OF b] have 2: "kept s2 s3 \<and> K s3 = K s2" .
  have 3: "kept s3 s' \<and> K s' = K s3"
  proof (cases "aIHFLW a = 1")
    case True
    with c obtain tn s4 where
      d: "DATA_set 2 (K s3) (Some (tn / DZ)) s3 = Inr s4" and
      e: "(if IADV l = 0 then DATA_set 3 (K s4) (Some 0) s4
        else if IADV l = 1 then
          bind (strain_rate a s4 (T l)) (\<lambda>v.
          case v of None \<Rightarrow> Inr s4 | Some x \<Rightarrow> DATA_set 3 (K s4) (Some x) s4)
        else Inr s4) = Inr s'"
      by (auto elim!: bindE)
    from DATA_set_TEM [OF d] have 4: "kept s3 s4 \<and> K s4 = K s3" .
    from e have "kept s4 s' \<and> K s' = K s4"
      by (auto elim!: bindE split: if_splits option.splits dest!: DATA_set_TEM)
    with 4 show ?thesis by (auto intro: kept_trans)
  next
    case False
    with c show ?thesis by simp
  qed
  from 1 2 3 show ?thesis by (auto intro: kept_trans)
qed

lemma TIMSTR_bodyE:
  assumes "TIMSTR_body a (l, s) = Inr (go, l', s')"
  obtains s1 where
    "tem_sweep a l [2 ..< JN + 1] s = Inr s1"
    "maybe_record a (advance l) s1 = Inr s'"
    "step_control a (advance l) s' = Inr (go, l')"
  using assms unfolding TIMSTR_body_def Let_def
  by (auto elim!: bindE)

lemma maybe_record_TEM: "maybe_record a l s = Inr s' \<Longrightarrow> kept s s'"
  unfolding maybe_record_def
  by (auto elim!: bindE split: if_splits dest: record_row_TEM)

lemma TIMSTR_body_boundary:
  assumes "TIMSTR_body a (l, s) = Inr (go, l', s')"
  shows "TEM s' r 0 = TEM s r 0 \<and> TEM s' r JN = TEM s r JN"
proof -
  from assms obtain s1 where
    sw: "tem_sweep a l [2 ..< JN + 1] s = Inr s1" and
    rr: "maybe_record a (advance l) s1 = Inr s'"
    by (rule TIMSTR_bodyE)
  have k0: "TEM s1 r 0 = TEM s r 0"
    using tem_sweep_keeps [OF sw, of 0] by (simp add: JN_def)
  have k20: "TEM s1 r JN = TEM s r JN"
    using tem_sweep_keeps [OF sw, of JN] by (auto simp: JN_def)
  have "TEM s' = TEM s1" using rr by (intro kept_TEM maybe_record_TEM)
  then show ?thesis using k0 k20 by simp
qed

lemma loop_reach_boundary:
  "loop_reach a ls ls' \<Longrightarrow>
     TEM (snd ls') r 0 = TEM (snd ls) r 0 \<and> TEM (snd ls') r JN = TEM (snd ls) r JN"
proof (induction rule: loop_reach.induct)
  case start
  then show ?case by simp
next
  case (step ls1 go l2 s2)
  then show ?case using TIMSTR_body_boundary [of a "fst ls1" "snd ls1" go l2 s2 r] by simp
qed

lemma loop_reach_trans:
  "loop_reach a ls1 z \<Longrightarrow> loop_reach a ls ls1 \<Longrightarrow> loop_reach a ls z"
  by (induction rule: loop_reach.induct) (auto intro: loop_reach.step)

lemma TIMSTR_loop_reach_aux:
  "TIMSTR_loop a ls = Some y \<Longrightarrow>
     (case y of Inl e \<Rightarrow> True | Inr s' \<Rightarrow> \<exists>l. loop_reach a ls (l, s'))"
proof (erule TIMSTR_loop.raw_induct [rotated], goal_cases)
  case (1 f a ls y)
  note IH = 1(1) and eq = 1(2)
  show ?case
  proof (cases "TIMSTR_body a ls")
    case (Inl e)
    with eq show ?thesis by auto
  next
    case (Inr x)
    obtain go l1 s1 where x: "x = (go, l1, s1)" by (cases x) auto
    have st: "loop_reach a ls (l1, s1)"
      using loop_reach.step [OF loop_reach.start] Inr x by blast
    show ?thesis
    proof (cases go)
      case True
      with eq Inr x have "f a (l1, s1) = Some y" by simp
      then have "case y of Inl e \<Rightarrow> True | Inr s' \<Rightarrow> \<exists>l. loop_reach a (l1, s1) (l, s')"
        by (rule IH)
      then show ?thesis
        using st by (auto split: sum.splits intro: loop_reach_trans)
    next
      case False
      with eq Inr x have "y = Inr s1" by simp
      with st show ?thesis by auto
    qed
  qed
qed

lemma TIMSTR_loop_reach:
  "TIMSTR_loop a ls = Some (Inr s') \<Longrightarrow> \<exists>l. loop_reach a ls (l, s')"
  by (drule TIMSTR_loop_reach_aux) simp

lemma TIMSTR_init_frame:
  assumes "TIMSTR_init a s = Inr (l0, s0)"
  shows "\<exists>s3. kept s s3 \<and> K s3 = K s \<and> s0 = (if aKRR a = 0 then init_TEM s3 else s3)"
proof -
  from assms obtain s1 s3 where
    1: "(if aKRR a = 0
           then bind (DATA_set 0 (K s) (Some 0) s) (DATA_set 1 (K s) (Some 0))
           else Inr s) = Inr s1" and
    2: "(if aIHFLW a = 1 \<and> aKRR a = 0
           then bind (DATA_set 2 (K s1) (Some 1) s1) (\<lambda>s2.
                bind (strain_rate_init a s2 0) (\<lambda>v.
                case v of None \<Rightarrow> Inr s2 | Some x \<Rightarrow> DATA_set 3 (K s2) (Some x) s2))
           else Inr s1) = Inr s3" and
    3: "s0 = (if aKRR a = 0 then init_TEM s3 else s3)"
    unfolding TIMSTR_init_def Let_def
    by (auto elim!: bindE split: if_splits)
  from 1 have a: "kept s s1 \<and> K s1 = K s"
    by (auto elim!: bindE split: if_splits dest!: DATA_set_TEM intro: kept_trans)
  from 2 have b: "kept s1 s3 \<and> K s3 = K s1"
    by (auto elim!: bindE split: if_splits option.splits dest!: DATA_set_TEM intro: kept_trans)
  from a b 3 show ?thesis by (auto intro: kept_trans)
qed

lemma TIMSTR_init_TEM:
  assumes "TIMSTR_init a s = Inr (l0, s0)" "b < 2"
  shows "if aKRR a = 0 then TEM s0 b 0 = Some 1 \<and> TEM s0 b JN = Some 0
         else TEM s0 b 0 = TEM s b 0 \<and> TEM s0 b JN = TEM s b JN"
  using TIMSTR_init_frame [OF assms(1)] assms(2)
  by (auto simp: init_TEM_def JNP1_def JN_def DZ_def kept_def)

lemma TEM_at_ok:
  assumes "tem_ok s" "jgi = 1 \<or> jgi = 2" "c < JNP1"
  shows "\<exists>x. TEM_at s jgi c = Inr x \<and> TEM s (jgi - 1) c = Some x"
proof -
  have r: "py_idx NDIM1 jgi = Inr (jgi - 1)" "jgi - 1 < 2"
    using assms(2) by (auto simp: py_idx_def NDIM1_def)
  then obtain x where "TEM s (jgi - 1) c = Some x"
    using assms(1,3) unfolding tem_ok_def by blast
  then show ?thesis
    using r assms(3)
    by (simp add: TEM_at_def TEM_num_def num_def NDIM1_def NDIM2_def JNP1_def JN_def)
qed

lemma tem_node_ok:
  assumes ok: "tem_ok s" and b: "buf_ok l" and it: "aITYPE a = 1" and J: "2 \<le> J" "J \<le> JN"
  shows "\<exists>s' x. tem_node a l J s = Inr s'
            \<and> s' = s\<lparr>TEM := (TEM s)(JGF l - 1 := (TEM s (JGF l - 1))(J - 1 := Some x))\<rparr>"
proof -
  have g: "JGI l = 1 \<or> JGI l = 2" using b by (auto simp: buf_ok_def)
  have c: "J < JNP1" "J - 1 < JNP1" "J - 2 < JNP1" using J by (auto simp: JNP1_def)
  obtain up where up: "TEM_at s (JGI l) J = Inr up" using TEM_at_ok [OF ok g c(1)] by blast
  obtain mid where mid: "TEM_at s (JGI l) (J - 1) = Inr mid"
    using TEM_at_ok [OF ok g c(2)] by blast
  obtain lo where lo: "TEM_at s (JGI l) (J - 2) = Inr lo" using TEM_at_ok [OF ok g c(3)] by blast
  have adv: "\<exists>v. ADV_of a l s J up lo = Inr v"
    using it by (simp add: ADV_of_def Let_def)
  then obtain v where v: "ADV_of a l s J up lo = Inr v" by blast
  have f: "py_idx NDIM1 (JGF l) = Inr (JGF l - 1)"
    using b by (auto simp: buf_ok_def py_idx_def NDIM1_def)
  have n: "J - 1 < NDIM2" using J by (simp add: JN_def NDIM2_def)
  show ?thesis
    unfolding tem_node_def using up mid lo v f n by (simp add: Let_def del: One_nat_def) blast
qed

lemma tem_node_keeps_ok:
  assumes ok: "tem_ok s" and b: "buf_ok l" and it: "aITYPE a = 1" and J: "2 \<le> J" "J \<le> JN"
  shows "\<exists>s'. tem_node a l J s = Inr s' \<and> tem_ok s'"
proof -
  from tem_node_ok [OF assms] obtain s' x where
    s': "tem_node a l J s = Inr s'"
        "s' = s\<lparr>TEM := (TEM s)(JGF l - 1 := (TEM s (JGF l - 1))(J - 1 := Some x))\<rparr>"
    by blast
  have "tem_ok s'" using ok unfolding tem_ok_def s'(2) by auto
  with s'(1) show ?thesis by blast
qed

lemma tem_sweep_ok:
  assumes b: "buf_ok l" and it: "aITYPE a = 1"
  shows "tem_ok s \<Longrightarrow> \<forall>J\<in>set Js. 2 \<le> J \<and> J \<le> JN \<Longrightarrow>
         \<exists>s'. tem_sweep a l Js s = Inr s' \<and> tem_ok s'"
proof (induction Js arbitrary: s)
  case Nil
  then show ?case by simp
next
  case (Cons J Js)
  from tem_node_keeps_ok [OF Cons.prems(1) b it] Cons.prems(2)
  obtain s1 where s1: "tem_node a l J s = Inr s1" "tem_ok s1" by auto
  from Cons.IH [OF s1(2)] Cons.prems(2)
  obtain s' where "tem_sweep a l Js s1 = Inr s'" "tem_ok s'" by auto
  with s1(1) show ?case by simp
qed

lemma tem_sweep_rest: "tem_sweep a l Js s = Inr s' \<Longrightarrow> s' = s\<lparr>TEM := TEM s'\<rparr>"
proof (induction Js arbitrary: s)
  case Nil
  then show ?case by simp
next
  case (Cons J Js)
  from Cons.prems obtain s1 where s1: "tem_node a l J s = Inr s1" "tem_sweep a l Js s1 = Inr s'"
    by (auto elim!: bindE)
  from tem_node_Inr [OF s1(1)] obtain r x where
    e: "s1 = s\<lparr>TEM := (TEM s)(r := (TEM s r)(J - 1 := Some x))\<rparr>" by blast
  from Cons.IH [OF s1(2)] have "s' = s1\<lparr>TEM := TEM s'\<rparr>" .
  then show ?case unfolding e by simp
qed

lemma tem_sweep_step_ok:
  assumes "buf_ok l" "aITYPE a = 1" "tem_ok s"
  shows "\<exists>s'. tem_sweep a l [2 ..< JN + 1] s = Inr s' \<and> tem_ok s'
           \<and> K s' = K s \<and> DATA s' = DATA s"
proof -
  have "\<forall>J\<in>set [2 ..< JN + 1]. 2 \<le> J \<and> J \<le> JN" by auto
  from tem_sweep_ok [OF assms(1,2,3) this]
  obtain s' where s': "tem_sweep a l [2 ..< JN + 1] s = Inr s'" "tem_ok s'" by blast
  from tem_sweep_rest [OF s'(1)] have "K s' = K s \<and> DATA s' = DATA s"
    by (metis sim.select_convs(1,2) sim.surjective sim.update_convs(3))
  with s' show ?thesis by blast
qed

lemma trap_loop_ok:
  assumes ok: "tem_ok s" and g: "jgi = 1 \<or> jgi = 2"
  shows "\<forall>i\<in>set is. 2 \<le> i \<and> i \<le> JNP1 \<Longrightarrow> \<exists>v. trap_loop s jgi dz is acc = Inr v"
proof (induction "is" arbitrary: acc)
  case Nil
  then show ?case by simp
next
  case (Cons i "is")
  have c: "i - 2 < JNP1" "i - 1 < JNP1" using Cons.prems by auto
  obtain x where x: "TEM_at s jgi (i - 2) = Inr x" using TEM_at_ok [OF ok g c(1)] by blast
  obtain y where y: "TEM_at s jgi (i - 1) = Inr y" using TEM_at_ok [OF ok g c(2)] by blast
  show ?case using x y Cons.IH Cons.prems by simp
qed

lemma TRAP_of_ok:
  assumes "tem_ok s" "jgi = 1 \<or> jgi = 2"
  shows "\<exists>v. TRAP_of s jgi dz JNP1 = Inr v"
  unfolding TRAP_of_def by (rule trap_loop_ok [OF assms]) auto

lemma DATA_set_ok:
  assumes "0 < k" "k \<le> NDIM2"
  shows "DATA_set r k v s = Inr (s\<lparr>DATA := (DATA s)(r := (DATA s r)(k - 1 := v))\<rparr>)"
  using assms by (simp add: DATA_set_def py_idx_def)

lemma DATA_get_ok:
  assumes "0 < k" "k \<le> NDIM2"
  shows "DATA_get r k s = Inr (DATA s r (k - 1))"
  using assms by (simp add: DATA_get_def py_idx_def)

lemma tem_ok_DATA [simp]: "tem_ok (s\<lparr>DATA := d\<rparr>) = tem_ok s"
  by (simp add: tem_ok_def)

lemma tem_ok_K [simp]: "tem_ok (s\<lparr>K := k\<rparr>) = tem_ok s"
  by (simp add: tem_ok_def)

lemma tem_ok_TRINIT [simp]: "tem_ok (s\<lparr>TRINIT := x\<rparr>) = tem_ok s"
  by (simp add: tem_ok_def)

lemma tem_ok_SINIT [simp]: "tem_ok (s\<lparr>SINIT := x\<rparr>) = tem_ok s"
  by (simp add: tem_ok_def)

lemma TEM_at_cong: "TEM s' = TEM s \<Longrightarrow> TEM_at s' = TEM_at s"
  by (simp add: fun_eq_iff TEM_at_def TEM_num_def cong: if_cong)

lemma TRAP_of_cong: "TEM s' = TEM s \<Longrightarrow> TRAP_of s' jgi dz n = TRAP_of s jgi dz n"
proof -
  assume "TEM s' = TEM s"
  then have e: "TEM_at s' = TEM_at s" by (rule TEM_at_cong)
  have "trap_loop s' jgi dz is acc = trap_loop s jgi dz is acc" for "is" acc
    by (induction "is" arbitrary: acc) (simp_all add: e)
  then show ?thesis by (simp add: TRAP_of_def)
qed

lemma SUBCAL_ok:
  assumes ok: "tem_ok s" and g: "jgi = 1 \<or> jgi = 2" and k: "0 < k" "k \<le> NDIM2"
  shows "\<exists>s' v. SUBCAL t iadv conbet contrm JNP1 dtend g0 k jgi dz dtaus 1 0 dtbegx beta1 jsubs s
                  = Inr s'
             \<and> DATA s' = (DATA s)(1 := (DATA s 1)(k - 1 := Some v))
             \<and> TEM s' = TEM s \<and> K s' = K s"
proof -
  obtain trap where trap: "TRAP_of s jgi dz JNP1 = Inr trap" using TRAP_of_ok [OF ok g] by blast
  show ?thesis
  proof (cases "iadv = 1")
    case True
    have b: "BETAT_of s 1 g0 dtend dtaus jsubs t = Inr (Some (exp (g0 * t)))"
      by (simp add: BETAT_of_def)
    have sa: "SUBS_adv (Some (exp (g0 * t))) 0 conbet contrm beta1 trap
                = Inr (conbet * (1 - 1 / exp (g0 * t)) + contrm * (0.5 - trap))"
      by (simp add: SUBS_adv_def py_div_def)
    show ?thesis
      unfolding SUBCAL_def using True trap b sa k
      by (auto simp: Let_def DATA_set_ok DATA_get_ok num_def)
  next
    case False
    show ?thesis
      unfolding SUBCAL_def using False trap k
      by (auto simp: Let_def DATA_set_ok)
  qed
qed

lemma tem_ok_cong: "TEM s' = TEM s \<Longrightarrow> tem_ok s' = tem_ok s"
  by (simp add: tem_ok_def)

lemma strain_rate_regime1: "aITYPE a = 1 \<Longrightarrow> strain_rate a s t = Inr (Some (aG a))"
  by (simp add: strain_rate_def)

lemma record_row_ok:
  assumes ok: "tem_ok s" and b: "buf_ok l" and k: "K s < NDIM2"
    and std: "aITYPE a = 1" "aKRR a = 0" "aIHFLW a = 1"
    and ia: "IADV l = 0 \<or> IADV l = 1"
  shows "\<exists>s'. record_row a l s = Inr s' \<and> K s' = K s + 1
            \<and> DATA s' 0 = (DATA s 0)(K s := Some (T l))
            \<and> (\<forall>r c. c \<noteq> K s \<longrightarrow> DATA s' r c = DATA s r c)
            \<and> DATA s' 2 (K s) \<noteq> None \<and> DATA s' 3 (K s) \<noteq> None"
proof -
  have g: "JGI l = 1 \<or> JGI l = 2" using b by (auto simp: buf_ok_def)
  define s2 where "s2 = s\<lparr>K := K s + 1, DATA := (DATA s)(0 := (DATA s 0)(K s := Some (T l)))\<rparr>"
  have k1: "0 < K s + 1" "K s + 1 \<le> NDIM2" using k by auto
  have e2: "DATA_set 0 (K s + 1) (Some (T l)) (s\<lparr>K := K s + 1\<rparr>) = Inr s2"
    using DATA_set_ok [OF k1] by (simp add: s2_def)
  have ok2: "tem_ok s2" using ok by (simp add: s2_def tem_ok_def)
  have K2: "K s2 = K s + 1" by (simp add: s2_def)
  from SUBCAL_ok [OF ok2 g k1, of "T l" "IADV l" "aCONBET a" "aCONTRM a" "aDTEND a" "aG a" DZ
      "aDTAUS a" "aDTBEGX a" "aBETA1 a" JSUBS]
  obtain s3 v where s3:
    "SUBCAL (T l) (IADV l) (aCONBET a) (aCONTRM a) JNP1 (aDTEND a) (aG a) (K s + 1) (JGI l) DZ
       (aDTAUS a) 1 0 (aDTBEGX a) (aBETA1 a) JSUBS s2 = Inr s3"
    "DATA s3 = (DATA s2)(1 := (DATA s2 1)(K s + 1 - 1 := Some v))"
    "TEM s3 = TEM s2" "K s3 = K s2"
    by (elim exE conjE) (rule that; assumption)
  have ok3: "tem_ok s3" using ok2 tem_ok_cong [OF s3(3)] by simp
  obtain tn where tn: "TEM_at s3 (JGI l) (JN - 1) = Inr tn"
    using TEM_at_ok [OF ok3 g, of "JN - 1"] by (auto simp: JNP1_def JN_def)
  have k3: "0 < K s3" "K s3 \<le> NDIM2" using k1 s3(4) K2 by auto
  define s4 where "s4 = s3\<lparr>DATA := (DATA s3)(2 := (DATA s3 2)(K s3 - 1 := Some (tn / DZ)))\<rparr>"
  have e4: "DATA_set 2 (K s3) (Some (tn / DZ)) s3 = Inr s4"
    using DATA_set_ok [OF k3] by (simp add: s4_def)
  have K4: "K s4 = K s3" by (simp add: s4_def)
  define x where "x = (if IADV l = 0 then 0 else aG a)"
  define s5 where "s5 = s4\<lparr>DATA := (DATA s4)(3 := (DATA s4 3)(K s3 - 1 := Some x))\<rparr>"
  have e5: "(if IADV l = 0 then DATA_set 3 (K s4) (Some 0) s4
        else if IADV l = 1 then
          bind (strain_rate a s4 (T l)) (\<lambda>v.
          case v of None \<Rightarrow> Inr s4 | Some x \<Rightarrow> DATA_set 3 (K s4) (Some x) s4)
        else Inr s4) = Inr s5"
    using ia DATA_set_ok [OF k3, of 3 _ s4] std(1)
    by (auto simp: K4 s5_def x_def strain_rate_regime1)
  have rr: "record_row a l s = Inr s5"
    unfolding record_row_def Let_def
    using e2 s3(1) tn e4 e5 std by (simp add: K2 s3(4))
  have D5: "DATA s5 = (DATA s)(0 := (DATA s 0)(K s := Some (T l)),
                               1 := (DATA s 1)(K s := Some v),
                               2 := (DATA s 2)(K s := Some (tn / DZ)),
                               3 := (DATA s 3)(K s := Some x))"
    by (simp add: s5_def s4_def s3(2,4) K2 s2_def fun_eq_iff)
  have "K s5 = K s + 1" by (simp add: s5_def s4_def s3(4) K2)
  with rr D5 show ?thesis by (intro exI[of _ s5]) simp
qed

lemma grp_last:
  assumes "grp k0 s g"
  shows "g \<noteq> [] \<and> DATA s 0 (K s - 1) = Some (last g)"
proof -
  from assms have k: "1 \<le> k0" "k0 \<le> K s"
    and m: "map (DATA s 0) [k0 - 1 ..< K s] = map Some g" by (auto simp: grp_def)
  have ne: "[k0 - 1 ..< K s] \<noteq> []" using k by simp
  then have g: "g \<noteq> []" using m by (metis map_is_Nil_conv)
  have "last (map (DATA s 0) [k0 - 1 ..< K s]) = DATA s 0 (K s - 1)"
    using ne k by (simp add: last_map)
  moreover have "last (map Some g) = Some (last g)" using g by (simp add: last_map)
  ultimately show ?thesis using g m by simp
qed

lemma grp_append:
  assumes "grp k0 s g" "K s' = K s + 1" "DATA s' 0 = (DATA s 0)(K s := Some t)"
  shows "grp k0 s' (g @ [t])"
proof -
  from assms(1) have k: "1 \<le> k0" "k0 \<le> K s"
    and m: "map (DATA s 0) [k0 - 1 ..< K s] = map Some g" by (auto simp: grp_def)
  have "[k0 - 1 ..< K s'] = [k0 - 1 ..< K s] @ [K s]" using k assms(2) by simp
  moreover have "map (DATA s' 0) [k0 - 1 ..< K s] = map (DATA s 0) [k0 - 1 ..< K s]"
    by (rule map_cong) (auto simp: assms(3))
  ultimately have "map (DATA s' 0) [k0 - 1 ..< K s'] = map Some (g @ [t])"
    using m by (simp add: assms(3))
  then show ?thesis using k assms(2) by (simp add: grp_def)
qed

lemma grp_same:
  assumes "grp k0 s g" "K s' = K s" "DATA s' = DATA s"
  shows "grp k0 s' g"
  using assms by (simp add: grp_def)

lemma rows_full_same:
  assumes "rows_full s" "K s' = K s" "DATA s' = DATA s"
  shows "rows_full s'"
  using assms by (simp add: rows_full_def)

lemma rows_full_append:
  assumes "rows_full s" "K s' = K s + 1" "\<forall>r c. c \<noteq> K s \<longrightarrow> DATA s' r c = DATA s r c"
    "DATA s' 2 (K s) \<noteq> None" "DATA s' 3 (K s) \<noteq> None"
  shows "rows_full s'"
  unfolding rows_full_def
proof (intro allI impI)
  fix c assume c: "c < K s'" "DATA s' 0 c \<noteq> None"
  show "DATA s' 2 c \<noteq> None \<and> DATA s' 3 c \<noteq> None"
  proof (cases "c = K s")
    case True
    then show ?thesis using assms(4,5) by simp
  next
    case False
    then have "c < K s" using c(1) assms(2) by simp
    moreover have "DATA s' 0 c = DATA s 0 c" "DATA s' 2 c = DATA s 2 c" "DATA s' 3 c = DATA s 3 c"
      using False assms(3) by auto
    ultimately show ?thesis using assms(1) c(2) by (simp add: rows_full_def)
  qed
qed

lemma sorted_le_last: "sorted (g :: real list) \<Longrightarrow> x \<in> set g \<Longrightarrow> x \<le> last g"
  by (induction g) auto

lemma sorted_snoc: "sorted (g :: real list) \<Longrightarrow> g \<noteq> [] \<Longrightarrow> last g \<le> t \<Longrightarrow> sorted (g @ [t])"
  by (auto simp: sorted_append dest: sorted_le_last)

lemma maybe_record_ok:
  assumes gr: "grp k0 s g" and so: "sorted g" and le: "last g \<le> T l"
    and ok: "tem_ok s" and b: "buf_ok l" and k: "K s < NDIM2" and rf: "rows_full s"
    and std: "aITYPE a = 1" "aKRR a = 0" "aIHFLW a = 1"
    and ia: "IADV l = 0 \<or> IADV l = 1"
  shows "\<exists>s' g'. maybe_record a l s = Inr s' \<and> grp k0 s' (g @ g') \<and> sorted (g @ g')
            \<and> last (g @ g') \<le> T l \<and> K s \<le> K s' \<and> K s' \<le> K s + 1 \<and> rows_full s'
            \<and> (\<forall>r c. c < K s \<longrightarrow> DATA s' r c = DATA s r c) \<and> kept s s'
            \<and> (T l = DTHALT_of a \<or> T l = aDTEND a \<longrightarrow> last (g @ g') = T l)"
proof -
  from grp_last [OF gr] have g: "g \<noteq> []" "DATA s 0 (K s - 1) = Some (last g)" by auto
  from gr have k0: "0 < K s" "K s \<le> NDIM2" using k by (auto simp: grp_def)
  have rd: "bind (DATA_get 0 (K s) s) num = Inr (last g)"
    using DATA_get_ok [OF k0] g(2) by (simp add: num_def)
  show ?thesis
  proof (cases "T l \<ge> last g + aDTST a \<or> T l = DTHALT_of a \<or> T l = aDTEND a")
    case True
    from record_row_ok [OF ok b k std ia] obtain s' where s':
      "record_row a l s = Inr s'" "K s' = K s + 1" "DATA s' 0 = (DATA s 0)(K s := Some (T l))"
      "\<forall>r c. c \<noteq> K s \<longrightarrow> DATA s' r c = DATA s r c"
      "DATA s' 2 (K s) \<noteq> None" "DATA s' 3 (K s) \<noteq> None"
      by (elim exE conjE) (rule that; assumption)
    have mr: "maybe_record a l s = Inr s'"
      using True s'(1) DATA_get_ok [OF k0] g(2) by (simp add: maybe_record_def num_def)
    have 1: "grp k0 s' (g @ [T l])" by (rule grp_append [OF gr s'(2,3)])
    have 2: "sorted (g @ [T l])"
      using so le g(1) by (simp add: sorted_snoc)
    have 3: "rows_full s'" by (rule rows_full_append [OF rf s'(2,4,5,6)])
    have 4: "kept s s'" using record_row_TEM [OF s'(1)] by simp
    show ?thesis
      using mr 1 2 3 4 s'(2,4) by (intro exI[of _ s'] exI[of _ "[T l]"]) auto
  next
    case False
    have mr: "maybe_record a l s = Inr s"
      using False DATA_get_ok [OF k0] g(2) by (simp add: maybe_record_def num_def)
    show ?thesis
      using mr gr so le rf False by (intro exI[of _ s] exI[of _ "[]"]) auto
  qed
qed

lemma advance_fields:
  assumes "buf_ok l"
  shows "T (advance l) = T l + DT l" "DT (advance l) = DTI l" "DTI (advance l) = DTI l"
    "JFLAG (advance l) = JFLAG l" "IADV (advance l) = IADV l" "buf_ok (advance l)"
  using assms by (auto simp: advance_def buf_ok_def Let_def)

lemma phase_ok_facts:
  assumes "phase_ok a l"
  shows "0 < DTI l" "buf_ok l" "0 \<le> DT l" "IADV l = 0 \<or> IADV l = 1"
  using assms by (auto simp: phase_ok_def)

lemma step_control_phase:
  assumes ph: "phase_ok a l" and H: "aDTEND a < DTHALT_of a"
    and k: "0 < K s" "K s \<le> NDIM2"
  shows "\<exists>go l'. step_control a (advance l) s = Inr (go, l')
           \<and> T l' = T l + DT l \<and> DTI l' = DTI l
           \<and> (go \<longrightarrow> phase_ok a l' \<and> pot a l' + DTI l \<le> pot a l \<and> 0 \<le> pot a l')
           \<and> (\<not> go \<longrightarrow> T l' = DTHALT_of a)"
proof -
  let ?l = "advance l"
  note f = advance_fields [OF phase_ok_facts(2) [OF ph]]
  have d: "0 < DTI l" by (rule phase_ok_facts(1) [OF ph])
  from ph consider
    (A) "JFLAG l = 0" "IADV l = 1" "DT l = DTI l" "T l + DTI l \<le> aDTEND a"
  | (B) "JFLAG l = 1" "IADV l = 1" "DT l = aDTEND a - T l" "0 \<le> DT l"
  | (C) "JFLAG l = 1" "IADV l = 0" "DT l = DTI l" "aDTEND a \<le> T l" "T l + DTI l < DTHALT_of a"
  | (D) "JFLAG l = 2" "IADV l = 0 \<or> IADV l = 1" "DT l = DTHALT_of a - T l" "0 < DT l"
        "aDTEND a \<le> T l"
    unfolding phase_ok_def by blast
  then show ?thesis
  proof cases
    case A
    show ?thesis
    proof (cases "T ?l + DT ?l \<le> aDTEND a")
      case True
      then have "step_control a ?l s = Inr (True, ?l)" by (simp add: step_control_def)
      moreover have "phase_ok a ?l" using True A d f by (simp add: phase_ok_def)
      moreover have "pot a ?l + DTI l \<le> pot a l" using A f by (simp add: pot_def)
      moreover have "0 \<le> pot a ?l" using A f H d True by (simp add: pot_def)
      ultimately show ?thesis using f by (intro exI[of _ True] exI[of _ ?l]) simp
    next
      case False
      let ?l' = "?l\<lparr>JFLAG := 1, DT := aDTEND a - T ?l\<rparr>"
      have "step_control a ?l s = Inr (True, ?l')"
        using False A f by (simp add: step_control_def)
      moreover have "phase_ok a ?l'" using False A d f by (simp add: phase_ok_def buf_ok_def)
      moreover have "pot a ?l' + DTI l \<le> pot a l" using A f by (simp add: pot_def)
      moreover have "0 \<le> pot a ?l'" using A f H d by (simp add: pot_def)
      ultimately show ?thesis using f by (intro exI[of _ True] exI[of _ ?l']) simp
    qed
  next
    case B
    have T': "T ?l = aDTEND a" using B f by simp
    have n1: "\<not> T ?l + DT ?l \<le> aDTEND a" using T' f d by simp
    show ?thesis
    proof (cases "T ?l + DT ?l < DTHALT_of a")
      case True
      let ?l' = "?l\<lparr>IADV := 0\<rparr>"
      have "step_control a ?l s = Inr (True, ?l')"
        using True n1 B f by (simp add: step_control_def)
      moreover have "phase_ok a ?l'" using True B d f T' by (simp add: phase_ok_def buf_ok_def)
      moreover have "pot a ?l' + DTI l \<le> pot a l" using B f T' by (simp add: pot_def)
      moreover have "0 \<le> pot a ?l'" using B f H d T' by (simp add: pot_def)
      ultimately show ?thesis using f by (intro exI[of _ True] exI[of _ ?l']) simp
    next
      case False
      let ?l' = "?l\<lparr>JFLAG := 2, DT := DTHALT_of a - T ?l\<rparr>"
      have "step_control a ?l s = Inr (True, ?l')"
        using False n1 B f T' H by (simp add: step_control_def Let_def)
      moreover have "phase_ok a ?l'" using B d f T' H by (simp add: phase_ok_def buf_ok_def)
      moreover have "pot a ?l' + DTI l \<le> pot a l" using B f T' by (simp add: pot_def)
      moreover have "0 \<le> pot a ?l'" using B f H d T' by (simp add: pot_def)
      ultimately show ?thesis using f by (intro exI[of _ True] exI[of _ ?l']) simp
    qed
  next
    case C
    have T': "T ?l = T l + DTI l" using C f by simp
    have n1: "\<not> T ?l + DT ?l \<le> aDTEND a" using T' f d C by simp
    show ?thesis
    proof (cases "T ?l + DT ?l < DTHALT_of a")
      case True
      let ?l' = "?l\<lparr>IADV := 0\<rparr>"
      have "step_control a ?l s = Inr (True, ?l')"
        using True n1 C f by (simp add: step_control_def)
      moreover have "phase_ok a ?l'" using True C d f T' by (simp add: phase_ok_def buf_ok_def)
      moreover have "pot a ?l' + DTI l \<le> pot a l" using C f T' by (simp add: pot_def)
      moreover have "0 \<le> pot a ?l'" using C f H d T' by (simp add: pot_def)
      ultimately show ?thesis using f by (intro exI[of _ True] exI[of _ ?l']) simp
    next
      case False
      let ?l' = "?l\<lparr>JFLAG := 2, DT := DTHALT_of a - T ?l\<rparr>"
      have "step_control a ?l s = Inr (True, ?l')"
        using False n1 C f T' H by (simp add: step_control_def Let_def)
      moreover have "phase_ok a ?l'" using C d f T' H by (simp add: phase_ok_def buf_ok_def)
      moreover have "pot a ?l' + DTI l \<le> pot a l" using C f T' by (simp add: pot_def)
      moreover have "0 \<le> pot a ?l'" using C f H d T' by (simp add: pot_def)
      ultimately show ?thesis using f by (intro exI[of _ True] exI[of _ ?l']) simp
    qed
  next
    case D
    have T': "T ?l = DTHALT_of a" using D f by simp
    have n1: "\<not> T ?l + DT ?l \<le> aDTEND a" using T' f d H by simp
    have "\<exists>l'. step_control a ?l s = Inr (False, l') \<and> T l' = T ?l \<and> DTI l' = DTI ?l"
      using n1 D f DATA_get_ok [OF k] by (simp add: step_control_def Let_def)
    then show ?thesis using T' f by auto
  qed
qed

lemma amp_eq_refl [simp]: "amp_eq s s"
  by (simp add: amp_eq_def)

lemma amp_eq_trans: "amp_eq s s1 \<Longrightarrow> amp_eq s1 s2 \<Longrightarrow> amp_eq s s2"
  by (simp add: amp_eq_def)

lemma kept_amp_eq: "kept s s' \<Longrightarrow> amp_eq s s'"
  by (simp add: kept_def amp_eq_def)

lemma tem_sweep_amp_eq: "tem_sweep a l Js s = Inr s' \<Longrightarrow> amp_eq s s'"
proof -
  assume "tem_sweep a l Js s = Inr s'"
  then have "s' = s\<lparr>TEM := TEM s'\<rparr>" by (rule tem_sweep_rest)
  then have "AMPL s' = AMPL s \<and> WAVEN s' = WAVEN s \<and> GP1 s' = GP1 s"
    by (metis sim.select_convs(6,7,8) sim.surjective sim.update_convs(3))
  then show ?thesis by (simp add: amp_eq_def)
qed

lemma TIMSTR_body_std:
  assumes ph: "phase_ok a l" and H: "aDTEND a < DTHALT_of a"
    and ok: "tem_ok s" and gr: "grp k0 s g" and so: "sorted g" and le: "last g \<le> T l"
    and rf: "rows_full s" and k: "K s < NDIM2"
    and std: "aITYPE a = 1" "aKRR a = 0" "aIHFLW a = 1"
  shows "\<exists>go l' s' g'. TIMSTR_body a (l, s) = Inr (go, l', s')
           \<and> tem_ok s' \<and> grp k0 s' (g @ g') \<and> sorted (g @ g') \<and> last (g @ g') \<le> T l'
           \<and> rows_full s' \<and> K s \<le> K s' \<and> K s' \<le> K s + 1
           \<and> (\<forall>r c. c < K s \<longrightarrow> DATA s' r c = DATA s r c) \<and> amp_eq s s'
           \<and> DTI l' = DTI l
           \<and> (go \<longrightarrow> phase_ok a l' \<and> pot a l' + DTI l \<le> pot a l \<and> 0 \<le> pot a l')
           \<and> (\<not> go \<longrightarrow> last (g @ g') = DTHALT_of a)"
proof -
  note pf = phase_ok_facts [OF ph]
  note af = advance_fields [OF pf(2)]
  from tem_sweep_step_ok [OF pf(2) std(1) ok] obtain s1 where s1:
    "tem_sweep a l [2 ..< JN + 1] s = Inr s1" "tem_ok s1" "K s1 = K s" "DATA s1 = DATA s"
    by (elim exE conjE) (rule that; assumption)
  have a1: "amp_eq s s1" by (rule tem_sweep_amp_eq [OF s1(1)])
  have gr1: "grp k0 s1 g" by (rule grp_same [OF gr s1(3,4)])
  have rf1: "rows_full s1" by (rule rows_full_same [OF rf s1(3,4)])
  have le1: "last g \<le> T (advance l)" using le pf(3) af(1) by simp
  have k1: "K s1 < NDIM2" using k s1(3) by simp
  have ia: "IADV (advance l) = 0 \<or> IADV (advance l) = 1" using pf(4) af(5) by simp
  from maybe_record_ok [OF gr1 so le1 s1(2) af(6) k1 rf1 std ia] obtain s' g' where s':
    "maybe_record a (advance l) s1 = Inr s'" "grp k0 s' (g @ g')" "sorted (g @ g')"
    "last (g @ g') \<le> T (advance l)" "K s1 \<le> K s'" "K s' \<le> K s1 + 1" "rows_full s'"
    "\<forall>r c. c < K s1 \<longrightarrow> DATA s' r c = DATA s1 r c" "kept s1 s'"
    "T (advance l) = DTHALT_of a \<or> T (advance l) = aDTEND a \<longrightarrow> last (g @ g') = T (advance l)"
    by (elim exE conjE) (rule that; assumption)
  have ok': "tem_ok s'" using s1(2) tem_ok_cong [OF kept_TEM [OF s'(9)]] by simp
  have a2: "amp_eq s s'" by (rule amp_eq_trans [OF a1 kept_amp_eq [OF s'(9)]])
  have kk: "0 < K s'" "K s' \<le> NDIM2"
    using s'(2) s'(6) k1 by (auto simp: grp_def)
  from step_control_phase [OF ph H kk] obtain go l' where c:
    "step_control a (advance l) s' = Inr (go, l')" "T l' = T l + DT l" "DTI l' = DTI l"
    "go \<longrightarrow> phase_ok a l' \<and> pot a l' + DTI l \<le> pot a l \<and> 0 \<le> pot a l'"
    "\<not> go \<longrightarrow> T l' = DTHALT_of a"
    by (elim exE conjE) (rule that; assumption)
  have body: "TIMSTR_body a (l, s) = Inr (go, l', s')"
    unfolding TIMSTR_body_def using s1(1) s'(1) c(1) by (simp add: Let_def)
  have TT: "T l' = T (advance l)" using c(2) af(1) by simp
  have fin: "\<not> go \<longrightarrow> last (g @ g') = DTHALT_of a"
    using c(5) s'(10) TT by auto
  have fr: "\<forall>r c. c < K s \<longrightarrow> DATA s' r c = DATA s r c"
    using s'(8) s1(3,4) by simp
  show ?thesis
    using body ok' s'(2,3,7) s'(4) TT s'(5,6) s1(3) fr a2 c(3,4) fin
    by (intro exI[of _ go] exI[of _ l'] exI[of _ s'] exI[of _ g']) simp
qed

lemma TIMSTR_loop_std:
  assumes H: "aDTEND a < DTHALT_of a"
    and std: "aITYPE a = 1" "aKRR a = 0" "aIHFLW a = 1"
  shows "phase_ok a l \<Longrightarrow> tem_ok s \<Longrightarrow> grp k0 s g \<Longrightarrow> sorted g \<Longrightarrow> last g \<le> T l \<Longrightarrow>
         rows_full s \<Longrightarrow> pot a l \<le> real n * DTI l \<Longrightarrow> K s + n + 1 \<le> NDIM2 \<Longrightarrow>
         \<exists>s' g'. TIMSTR_loop a (l, s) = Some (Inr s') \<and> grp k0 s' (g @ g') \<and> sorted (g @ g')
            \<and> last (g @ g') = DTHALT_of a \<and> rows_full s' \<and> K s \<le> K s' \<and> K s' \<le> K s + n + 1
            \<and> (\<forall>r c. c < K s \<longrightarrow> DATA s' r c = DATA s r c) \<and> amp_eq s s'"
proof (induction n arbitrary: l s g)
  case 0
  have k: "K s < NDIM2" using 0(8) by simp
  from TIMSTR_body_std [OF 0(1) H 0(2,3,4,5,6) k std] obtain go l' s' g' where b:
    "TIMSTR_body a (l, s) = Inr (go, l', s')" "grp k0 s' (g @ g')" "sorted (g @ g')"
    "rows_full s'" "K s \<le> K s'" "K s' \<le> K s + 1"
    "\<forall>r c. c < K s \<longrightarrow> DATA s' r c = DATA s r c" "amp_eq s s'"
    "go \<longrightarrow> phase_ok a l' \<and> pot a l' + DTI l \<le> pot a l \<and> 0 \<le> pot a l'"
    "\<not> go \<longrightarrow> last (g @ g') = DTHALT_of a"
    by (elim exE conjE) (rule that; assumption)
  have "\<not> go"
  proof
    assume go
    then have "pot a l' + DTI l \<le> pot a l" "0 \<le> pot a l'" using b(9) by auto
    moreover have "0 < DTI l" by (rule phase_ok_facts(1) [OF 0(1)])
    ultimately show False using 0(7) by simp
  qed
  then have "TIMSTR_loop a (l, s) = Some (Inr s')"
    using b(1) by (subst TIMSTR_loop.simps) simp
  then show ?case
    using b(2,3,4,5,6,7,8) b(10) \<open>\<not> go\<close>
    by (intro exI[of _ s'] exI[of _ g']) simp
next
  case (Suc n)
  have k: "K s < NDIM2" using Suc.prems(8) by simp
  from TIMSTR_body_std [OF Suc.prems(1) H Suc.prems(2,3,4,5,6) k std]
  obtain go l' s' g' where b:
    "TIMSTR_body a (l, s) = Inr (go, l', s')" "tem_ok s'" "grp k0 s' (g @ g')" "sorted (g @ g')"
    "last (g @ g') \<le> T l'"
    "rows_full s'" "K s \<le> K s'" "K s' \<le> K s + 1"
    "\<forall>r c. c < K s \<longrightarrow> DATA s' r c = DATA s r c" "amp_eq s s'" "DTI l' = DTI l"
    "go \<longrightarrow> phase_ok a l' \<and> pot a l' + DTI l \<le> pot a l \<and> 0 \<le> pot a l'"
    "\<not> go \<longrightarrow> last (g @ g') = DTHALT_of a"
    by (elim exE conjE) (rule that; assumption)
  show ?case
  proof (cases go)
    case False
    then have "TIMSTR_loop a (l, s) = Some (Inr s')"
      using b(1) by (subst TIMSTR_loop.simps) simp
    then show ?thesis
      using b(3,4,6,7,8,9,10) b(13) False
      by (intro exI[of _ s'] exI[of _ g']) simp
  next
    case True
    then have p: "phase_ok a l'" "pot a l' + DTI l \<le> pot a l" using b(12) by auto
    have pn: "pot a l' \<le> real n * DTI l'"
      using p(2) Suc.prems(7) b(11) by (simp add: algebra_simps)
    have kn: "K s' + n + 1 \<le> NDIM2" using b(8) Suc.prems(8) by simp
    from Suc.IH [OF p(1) b(2,3,4,5,6) pn kn] obtain s'' g'' where r:
      "TIMSTR_loop a (l', s') = Some (Inr s'')" "grp k0 s'' ((g @ g') @ g'')"
      "sorted ((g @ g') @ g'')" "last ((g @ g') @ g'') = DTHALT_of a" "rows_full s''"
      "K s' \<le> K s''" "K s'' \<le> K s' + n + 1"
      "\<forall>r c. c < K s' \<longrightarrow> DATA s'' r c = DATA s' r c" "amp_eq s' s''"
      by (elim exE conjE) (rule that; assumption)
    have lp: "TIMSTR_loop a (l, s) = Some (Inr s'')"
      using b(1) True r(1) by (subst TIMSTR_loop.simps) simp
    have fr: "\<forall>r c. c < K s \<longrightarrow> DATA s'' r c = DATA s r c"
      using r(8) b(9) b(7) by auto
    have am: "amp_eq s s''" by (rule amp_eq_trans [OF b(10) r(9)])
    show ?thesis
      using lp r(2,3,4,5) r(6,7) b(7,8) fr am
      by (intro exI[of _ s''] exI[of _ "g' @ g''"]) simp
  qed
qed

lemma DTI_of_val:
  "AMPL s + aG a \<noteq> 0 \<Longrightarrow>
     DTI_of a s = Inr (min (min (DZ ^ 2 / 2) (DZ / (AMPL s + aG a))) (aDTST a))"
  by (simp add: DTI_of_def Let_def py_div_def DTC_def)

lemma DTI_of_pos:
  assumes "0 < AMPL s + aG a" "0 < aDTST a"
  shows "\<exists>dti. DTI_of a s = Inr dti \<and> 0 < dti \<and> dti \<le> DZ ^ 2 / 2 \<and> dti \<le> aDTST a
           \<and> dti \<le> DZ / (AMPL s + aG a)
           \<and> (dti = DZ ^ 2 / 2 \<or> dti = aDTST a \<or> dti = DZ / (AMPL s + aG a))"
proof -
  define x where "x = DZ ^ 2 / 2"
  define y where "y = DZ / (AMPL s + aG a)"
  define z where "z = aDTST a"
  have p: "0 < x" "0 < y" "0 < z"
    using assms by (simp_all add: x_def y_def z_def DZ_def)
  have v: "DTI_of a s = Inr (min (min x y) z)"
    using DTI_of_val [of s a] assms(1) by (simp add: x_def y_def z_def)
  have "0 < min (min x y) z \<and> min (min x y) z \<le> x \<and> min (min x y) z \<le> z
        \<and> min (min x y) z \<le> y
        \<and> (min (min x y) z = x \<or> min (min x y) z = z \<or> min (min x y) z = y)"
    using p by (auto simp: min_def)
  then show ?thesis using v unfolding x_def y_def z_def by blast
qed

lemma strain_rate_init_regime1: "aITYPE a = 1 \<Longrightarrow> strain_rate_init a s t = Inr (Some (aG a))"
  by (simp add: strain_rate_init_def)

lemma TIMSTR_init_std:
  assumes std: "aITYPE a = 1" "aKRR a = 0" "aIHFLW a = 1"
    and d: "DTI_of a s = Inr dti"
    and k: "0 < K s" "K s \<le> NDIM2"
  shows "TIMSTR_init a s =
           Inr (\<lparr> T = 0, DT = dti, DTI = dti, JGI = 1, JGF = 2, JFLAG = 0, IADV = 1,
                   STOT = Some 0 \<rparr>,
                init_TEM (s\<lparr>DATA := (DATA s)(0 := (DATA s 0)(K s - 1 := Some 0),
                                              1 := (DATA s 1)(K s - 1 := Some 0),
                                              2 := (DATA s 2)(K s - 1 := Some 1),
                                              3 := (DATA s 3)(K s - 1 := Some (aG a)))\<rparr>))"
  unfolding TIMSTR_init_def
  using std d k
  by (simp add: Let_def DATA_set_ok strain_rate_init_regime1 fun_upd_twist)

lemma TIMSTR_std:
  assumes std: "aITYPE a = 1" "aKRR a = 0" "aIHFLW a = 1"
    and H: "aDTEND a < DTHALT_of a"
    and d: "DTI_of a s = Inr dti" "0 < dti" "dti \<le> aDTEND a"
    and k: "0 < K s"
    and n: "DTHALT_of a + dti \<le> real n * dti" "K s + n + 1 \<le> NDIM2"
    and rf: "rows_full (s\<lparr>K := K s - 1\<rparr>)"
  shows "\<exists>s' g. TIMSTR a s = Some (Inr s') \<and> grp (K s) s' (0 # g) \<and> sorted (0 # g)
           \<and> last (0 # g) = DTHALT_of a \<and> rows_full s' \<and> K s \<le> K s' \<and> K s' \<le> K s + n + 1
           \<and> (\<forall>r c. c < K s - 1 \<longrightarrow> DATA s' r c = DATA s r c) \<and> amp_eq s s'"
proof -
  define l0 where "l0 = \<lparr> T = 0, DT = dti, DTI = dti, JGI = 1, JGF = 2, JFLAG = 0, IADV = 1,
                   STOT = Some 0 \<rparr>"
  define s0 where "s0 = init_TEM (s\<lparr>DATA := (DATA s)(0 := (DATA s 0)(K s - 1 := Some 0),
                                              1 := (DATA s 1)(K s - 1 := Some 0),
                                              2 := (DATA s 2)(K s - 1 := Some 1),
                                              3 := (DATA s 3)(K s - 1 := Some (aG a)))\<rparr>)"
  have kk: "K s \<le> NDIM2" using n(2) by simp
  have init: "TIMSTR_init a s = Inr (l0, s0)"
    unfolding l0_def s0_def by (rule TIMSTR_init_std [OF std d(1) k kk])
  have K0: "K s0 = K s" by (simp add: s0_def init_TEM_def)
  have D0: "DATA s0 0 = (DATA s 0)(K s - 1 := Some 0)"
    by (simp add: s0_def init_TEM_def)
  have Dr: "\<forall>r c. c \<noteq> K s - 1 \<longrightarrow> DATA s0 r c = DATA s r c"
    by (simp add: s0_def init_TEM_def)
  have D2: "DATA s0 2 (K s - 1) \<noteq> None" "DATA s0 3 (K s - 1) \<noteq> None"
    by (simp_all add: s0_def init_TEM_def)
  have ok0: "tem_ok s0" by (simp add: s0_def init_TEM_def tem_ok_def)
  have am0: "amp_eq s s0" by (simp add: s0_def init_TEM_def amp_eq_def)
  have "[K s - 1 ..< K s] = [K s - 1]" using k by (simp add: upt_conv_Cons)
  then have gr0: "grp (K s) s0 [0]" using k by (simp add: grp_def K0 D0)
  have rf0: "rows_full s0"
    unfolding rows_full_def
  proof (intro allI impI)
    fix c assume c: "c < K s0" "DATA s0 0 c \<noteq> None"
    show "DATA s0 2 c \<noteq> None \<and> DATA s0 3 c \<noteq> None"
    proof (cases "c = K s - 1")
      case True
      then show ?thesis using D2 by simp
    next
      case False
      then have "c < K s - 1" using c(1) K0 by simp
      then show ?thesis using rf c(2) Dr False by (simp add: rows_full_def)
    qed
  qed
  have ph: "phase_ok a l0" using d(2,3) by (simp add: phase_ok_def l0_def buf_ok_def)
  have pt: "pot a l0 \<le> real n * DTI l0" using n(1) by (simp add: pot_def l0_def)
  have kn: "K s0 + n + 1 \<le> NDIM2" using n(2) K0 by simp
  have so: "sorted [0::real]" by simp
  have le: "last [0] \<le> T l0" by (simp add: l0_def)
  from TIMSTR_loop_std [OF H std ph ok0 gr0 so le rf0 pt kn] obtain s' g' where r:
    "TIMSTR_loop a (l0, s0) = Some (Inr s')" "grp (K s) s' ([0] @ g')" "sorted ([0] @ g')"
    "last ([0] @ g') = DTHALT_of a" "rows_full s'" "K s0 \<le> K s'" "K s' \<le> K s0 + n + 1"
    "\<forall>r c. c < K s0 \<longrightarrow> DATA s' r c = DATA s0 r c" "amp_eq s0 s'"
    by (elim exE conjE) (rule that; assumption)
  have t: "TIMSTR a s = Some (Inr s')" using init r(1) by (simp add: TIMSTR_def)
  have fr: "\<forall>r c. c < K s - 1 \<longrightarrow> DATA s' r c = DATA s r c"
    using r(8) Dr K0 by auto
  have am: "amp_eq s s'" by (rule amp_eq_trans [OF am0 r(9)])
  show ?thesis
    using t r(2,3,4,5) r(6,7) K0 fr am
    by (intro exI[of _ s'] exI[of _ g']) simp
qed

lemma obind_Inr [simp]: "obind (Some (Inr x)) f = f x"
  by (simp add: obind_def)

lemma set_dless_regime1:
  assumes "ITYPE1 p = 1" "0 < beta" "DTEND1 d \<noteq> 0"
  shows "set_dless_constants p d beta s = Some (Inr (s\<lparr>GP1 := ln beta / DTEND1 d\<rparr>))"
  using assms by (simp add: set_dless_constants_def py_log_def py_div_def)

lemma beta_pass_default:
  assumes p: "ITYPE1 p = 1" "IRIFT p = 1"
    and ts: "130 \<le> ts" and d: "DTEND1 d = 60 / ts" "DTSTOP d = 160 / ts" "DTST d = 1 / ts"
    and b: "1 \<le> beta" "beta \<le> 2"
    and s: "AMPL s = 1" "0 < K s" "K s + 1001 \<le> NDIM2" "rows_full (s\<lparr>K := K s - 1\<rparr>)"
  shows "\<exists>s' g. beta_pass p d beta s = Some (Inr s') \<and> grp (K s) s' (0 # g) \<and> sorted (0 # g)
           \<and> last (0 # g) = 160 / ts \<and> rows_full s' \<and> K s \<le> K s' \<and> K s' \<le> K s + 1001
           \<and> (\<forall>r c. c < K s - 1 \<longrightarrow> DATA s' r c = DATA s r c) \<and> AMPL s' = 1"
proof -
  have tp: "0 < ts" using ts by simp
  define s1 where "s1 = s\<lparr>GP1 := ln beta / DTEND1 d\<rparr>"
  define a where "a = args1 p d beta s1"
  have sd: "set_dless_constants p d beta s = Some (Inr s1)"
    unfolding s1_def using p(1) b(1) d(1) tp by (intro set_dless_regime1) auto
  have l0: "0 \<le> ln beta" using b(1) by simp
  have l1: "ln beta \<le> 1" using ln_le_minus_one [of beta] b by simp
  have G: "aG a = ln beta * ts / 60" by (simp add: a_def args1_def s1_def d(1))
  have G0: "0 \<le> aG a" using l0 tp by (simp add: G)
  have G1: "aG a \<le> ts / 60" using l1 tp by (simp add: G)
  have af: "aITYPE a = 1" "aKRR a = 0" "aIHFLW a = 1" "aDTEND a = 60 / ts" "aDTST a = 1 / ts"
    "DTHALT_of a = 160 / ts"
    using p by (simp_all add: a_def args1_def IHFLW_def d DTHALT_of_def)
  have A1: "AMPL s1 = 1" "K s1 = K s" "DATA s1 = DATA s" using s(1) by (simp_all add: s1_def)
  have gp: "0 < AMPL s1 + aG a" using G0 A1 by simp
  have st: "0 < aDTST a" using tp af by simp
  from DTI_of_pos [OF gp st] obtain dti where dti:
    "DTI_of a s1 = Inr dti" "0 < dti" "dti \<le> aDTST a"
    "dti = DZ ^ 2 / 2 \<or> dti = aDTST a \<or> dti = DZ / (AMPL s1 + aG a)"
    by blast
  have H: "aDTEND a < DTHALT_of a" using tp af by (simp add: divide_strict_right_mono)
  have fs: "dti \<le> aDTEND a"
  proof -
    have "1 / ts \<le> 60 / ts" using tp by (simp add: divide_right_mono)
    then show ?thesis using dti(3) af by simp
  qed
  have n: "DTHALT_of a + dti \<le> real (1000::nat) * dti"
  proof -
    have "160 / ts \<le> 999 * dti"
      using dti(4)
    proof (elim disjE)
      assume e: "dti = DZ ^ 2 / 2"
      have "160 / ts \<le> 160 / 130" using ts by (intro divide_left_mono) simp_all
      then show ?thesis by (simp add: e DZ_def power2_eq_square)
    next
      assume e: "dti = aDTST a"
      show ?thesis using tp by (simp add: e af divide_right_mono)
    next
      assume e: "dti = DZ / (AMPL s1 + aG a)"
      have q: "0 < 1 + aG a" using G0 by simp
      have "160 * (1 + aG a) \<le> 999 * DZ * ts"
        using G1 ts by (simp add: DZ_def)
      then have "160 / ts \<le> 999 * DZ / (1 + aG a)"
        using tp q by (simp add: field_simps)
      then show ?thesis by (simp add: e A1)
    qed
    then show ?thesis using af by simp
  qed
  have kn: "K s1 + 1000 + 1 \<le> NDIM2" using s(3) A1 by simp
  have rf: "rows_full (s1\<lparr>K := K s1 - 1\<rparr>)" using s(4) by (simp add: rows_full_def s1_def)
  have k1: "0 < K s1" using s(2) A1 by simp
  from TIMSTR_std [OF af(1,2,3) H dti(1,2) fs k1 n kn rf] obtain s' g where r:
    "TIMSTR a s1 = Some (Inr s')" "grp (K s1) s' (0 # g)" "sorted (0 # g)"
    "last (0 # g) = DTHALT_of a" "rows_full s'" "K s1 \<le> K s'" "K s' \<le> K s1 + 1000 + 1"
    "\<forall>r c. c < K s1 - 1 \<longrightarrow> DATA s' r c = DATA s1 r c" "amp_eq s1 s'"
    by (elim exE conjE) (rule that; assumption)
  have bp: "beta_pass p d beta s = Some (Inr s')"
    unfolding beta_pass_def using sd r(1) p(2) by (simp add: Let_def a_def)
  have am: "AMPL s' = 1" using r(9) A1 by (simp add: amp_eq_def)
  show ?thesis
    using bp r(2,3,4,5,6,7,8) am A1 af(6)
    by (intro exI[of _ s'] exI[of _ g]) simp
qed

subsection \<open>The sweep\<close>

lemma run_setup_INITVR:
  "\<exists>d ts. run_setup INITVR derived0 = Inr d \<and> 130 \<le> ts \<and> TIMSC d = ts
      \<and> DTEND1 d = 60 / ts \<and> DTSTOP d = 160 / ts \<and> DTST d = 1 / ts"
proof -
  obtain tl where tl: "calculate_TL 30000 = Inr (tl, False)" "59000 \<le> tl"
    using calculate_TL_default by blast
  let ?d0 = "derived0\<lparr>TL := tl\<rparr>"
  define ts where "ts = (TL ?d0) ^ 2 / (DIFFUS * (3.15 * 10 ^ 13))"
  have tl0: "TL ?d0 \<noteq> 0" using tl(2) by simp
  have "59000 * 59000 \<le> tl * tl" using tl(2) by (intro mult_mono) simp_all
  then have ts: "130 \<le> ts" unfolding ts_def by (simp add: DIFFUS_def power2_eq_square)
  obtain d1 where d1: "nondimensionalise_parameters INITVR ?d0 = Inr d1" "TIMSC d1 = ts"
     "TL d1 = TL ?d0"
     "DTEND1 d1 = (TBEG1 INITVR - TEND1 INITVR) / ts"
     "DTSTOP d1 = (TBEG1 INITVR - TSTOP INITVR) / ts" "DTST d1 = 1 / ts"
    using nondim_ok [OF ts_def tl0, of INITVR] by (auto simp: INITVR_def)
  obtain d2 where d2: "setup_constants INITVR d1 = Inr d2"
    by (simp add: setup_constants_def load_constants_def later_forcing_def Let_def INITVR_def
        py_div_def RHOA_val RHOW_def)
  note keep = setup_constants_keeps [OF d2]
  have cc: "check_cfg INITVR = Inr ()" by (simp add: check_cfg_def INITVR_def)
  have rs: "run_setup INITVR derived0 = Inr d2"
    using tl(1) d1(1) d2 cc by (simp add: run_setup_def INITVR_def)
  show ?thesis
    using rs ts keep d1(2,4,5,6)
    by (intro exI[of _ d2] exI[of _ ts]) (simp add: INITVR_def)
qed




subsection \<open>Step size and boundary nodes\<close>

lemma advance_TDT:
  "T (advance l) = T l + DT l \<and> DT (advance l) = DTI l \<and> DTI (advance l) = DTI l"
  by (simp add: advance_def Let_def)

lemma step_control_cases:
  assumes "step_control a l s = Inr (go, l')"
  shows "T l' = T l \<and> DTI l' = DTI l
       \<and> (DT l' = DT l \<or> DT l' = aDTEND a - T l' \<or> DT l' = DTHALT_of a - T l')"
  using assms unfolding step_control_def Let_def
  by (auto elim!: bindE split: if_splits)

lemma TIMSTR_init_step:
  assumes "TIMSTR_init a s = Inr (l0, s0)"
  shows "\<exists>dti. DTI_of a s = Inr dti \<and> DTI l0 = dti \<and> DT l0 = dti"
  using assms unfolding TIMSTR_init_def Let_def
  by (auto elim!: bindE)

lemma DTI_of_Inr:
  assumes "DTI_of a s = Inr dti"
  shows "AMPL s + aG a \<noteq> 0 \<and> dti = min (min (DZ ^ 2 / 2) (DZ / (AMPL s + aG a))) (aDTST a)"
  using assms
  by (auto simp: DTI_of_def Let_def py_div_def DTC_def split: if_splits)

text \<open>
  Claim C6, as amended.  The step size \<open>DTI\<close> of a solver run is the minimum of the
  conductive limit \<open>DZ\<^sup>2/2\<close>, the advective limit \<open>DZ / (AMPL + G)\<close> and the save cadence
  \<open>DTST\<close>, where \<open>AMPL\<close> is the global amplitude (1 unless regime 4 has set it) and \<open>G\<close>
  the strain-rate magnitude passed in.  The run starts with \<open>DT = DTI\<close>; each iteration
  advances the time by the current \<open>DT\<close>, restores \<open>DT = DTI\<close>, and the step control then
  either keeps it or clips it to the end of stretching or to the halt time.
\<close>

theorem C6_step_size:
  "(TIMSTR_init a s = Inr (l0, s0) \<longrightarrow>
      AMPL s + aG a \<noteq> 0
      \<and> DTI l0 = min (min (DZ ^ 2 / 2) (DZ / (AMPL s + aG a))) (aDTST a)
      \<and> DT l0 = DTI l0)
   \<and> (TIMSTR_body a (l, s1) = Inr (go, l', s') \<longrightarrow>
      DTI l' = DTI l \<and> T l' = T l + DT l \<and> DT (advance l) = DTI l
      \<and> (DT l' = DTI l \<or> DT l' = aDTEND a - T l' \<or> DT l' = DTHALT_of a - T l'))"
proof (intro conjI impI)
  assume i: "TIMSTR_init a s = Inr (l0, s0)"
  from TIMSTR_init_step [OF i] obtain dti where
    d: "DTI_of a s = Inr dti" "DTI l0 = dti" "DT l0 = dti" by blast
  from DTI_of_Inr [OF d(1)] d(2,3)
  show "AMPL s + aG a \<noteq> 0"
    "DTI l0 = min (min (DZ ^ 2 / 2) (DZ / (AMPL s + aG a))) (aDTST a)" "DT l0 = DTI l0"
    by simp_all
next
  assume b: "TIMSTR_body a (l, s1) = Inr (go, l', s')"
  then obtain s2 where c: "step_control a (advance l) s' = Inr (go, l')"
    by (rule TIMSTR_bodyE)
  from step_control_cases [OF c] advance_TDT [of l]
  show "DTI l' = DTI l" "T l' = T l + DT l" "DT (advance l) = DTI l"
    "DT l' = DTI l \<or> DT l' = aDTEND a - T l' \<or> DT l' = DTHALT_of a - T l'"
    by auto
qed

text \<open>
  Claim C6 as stated fails in regime 1.  There the strain rate of the episode is the
  constant \<open>G\<close>, so its peak is \<open>G\<close>; with \<open>G = 99\<close> and the amplitude \<open>AMPL = 1\<close> that
  \<^verbatim>\<open>run\<close> sets, the code divides \<open>DZ\<close> by \<open>AMPL + G = 100\<close> and steps by \<open>1/2000\<close>, while
  the minimum named by the claim is \<open>DZ / 99\<close>.
\<close>

theorem C6_counterexample:
  "strain_rate (example_args\<lparr>aG := 99\<rparr>) (run_reset sim0) 0 = Inr (Some 99)
   \<and> DTI_of (example_args\<lparr>aG := 99\<rparr>) (run_reset sim0) = Inr (1 / 2000)
   \<and> min (min (DZ ^ 2 / 2) (DZ / 99)) (aDTST (example_args\<lparr>aG := 99\<rparr>)) = 1 / 1980"
  by (simp add: strain_rate_def DTI_of_def Let_def py_div_def DTC_def DZ_def example_args_def
      run_reset_def sim0_def power2_eq_square)


lemma TIMSTR_init_inv:
  assumes std: "aITYPE a = 1" "aKRR a = 0" "aIHFLW a = 1"
    and d: "DTI_of a s = Inr dti" "0 < dti" "dti \<le> aDTEND a"
    and k: "0 < K s" "K s \<le> NDIM2"
    and rf: "rows_full (s\<lparr>K := K s - 1\<rparr>)"
  shows "\<exists>l0 s0. TIMSTR_init a s = Inr (l0, s0) \<and> phase_ok a l0 \<and> tem_ok s0
           \<and> grp (K s) s0 [0] \<and> rows_full s0 \<and> K s0 = K s \<and> T l0 = 0 \<and> DTI l0 = dti"
proof -
  define l0 where "l0 = \<lparr> T = 0, DT = dti, DTI = dti, JGI = 1, JGF = 2, JFLAG = 0, IADV = 1,
                   STOT = Some 0 \<rparr>"
  define s0 where "s0 = init_TEM (s\<lparr>DATA := (DATA s)(0 := (DATA s 0)(K s - 1 := Some 0),
                                              1 := (DATA s 1)(K s - 1 := Some 0),
                                              2 := (DATA s 2)(K s - 1 := Some 1),
                                              3 := (DATA s 3)(K s - 1 := Some (aG a)))\<rparr>)"
  have init: "TIMSTR_init a s = Inr (l0, s0)"
    unfolding l0_def s0_def by (rule TIMSTR_init_std [OF std d(1) k])
  have K0: "K s0 = K s" by (simp add: s0_def init_TEM_def)
  have D0: "DATA s0 0 = (DATA s 0)(K s - 1 := Some 0)"
    by (simp add: s0_def init_TEM_def)
  have Dr: "\<forall>r c. c \<noteq> K s - 1 \<longrightarrow> DATA s0 r c = DATA s r c"
    by (simp add: s0_def init_TEM_def)
  have D2: "DATA s0 2 (K s - 1) \<noteq> None" "DATA s0 3 (K s - 1) \<noteq> None"
    by (simp_all add: s0_def init_TEM_def)
  have ok0: "tem_ok s0" by (simp add: s0_def init_TEM_def tem_ok_def)
  have "[K s - 1 ..< K s] = [K s - 1]" using k by (simp add: upt_conv_Cons)
  then have gr0: "grp (K s) s0 [0]" using k by (simp add: grp_def K0 D0)
  have rf0: "rows_full s0"
    unfolding rows_full_def
  proof (intro allI impI)
    fix c assume c: "c < K s0" "DATA s0 0 c \<noteq> None"
    show "DATA s0 2 c \<noteq> None \<and> DATA s0 3 c \<noteq> None"
    proof (cases "c = K s - 1")
      case True
      then show ?thesis using D2 by simp
    next
      case False
      then have "c < K s - 1" using c(1) K0 by simp
      then show ?thesis using rf c(2) Dr False by (simp add: rows_full_def)
    qed
  qed
  have ph: "phase_ok a l0" using d(2,3) by (simp add: phase_ok_def l0_def buf_ok_def)
  show ?thesis
    using init ph ok0 gr0 rf0 K0
    by (intro exI[of _ l0] exI[of _ s0]) (simp add: l0_def)
qed

lemma example_first_step:
  "\<exists>l0 s0 go l1 s1. TIMSTR_init example_args (run_reset sim0) = Inr (l0, s0)
       \<and> TIMSTR_body example_args (l0, s0) = Inr (go, l1, s1)"
proof -
  let ?a = example_args and ?s = "run_reset sim0"
  have std: "aITYPE ?a = 1" "aKRR ?a = 0" "aIHFLW ?a = 1" by (simp_all add: example_args_def)
  have d: "DTI_of ?a ?s = Inr (1 / 800)" "(0::real) < 1 / 800" "1 / 800 \<le> aDTEND ?a"
    by (simp_all add: DTI_of_def Let_def py_div_def DTC_def DZ_def example_args_def
        run_reset_def sim0_def power2_eq_square)
  have k: "0 < K ?s" "K ?s \<le> NDIM2" by (simp_all add: run_reset_def NDIM2_def)
  have rf: "rows_full (?s\<lparr>K := K ?s - 1\<rparr>)" by (simp add: rows_full_def run_reset_def)
  from TIMSTR_init_inv [OF std d k rf] obtain l0 s0 where i:
    "TIMSTR_init ?a ?s = Inr (l0, s0)" "phase_ok ?a l0" "tem_ok s0" "grp (K ?s) s0 [0]"
    "rows_full s0" "K s0 = K ?s" "T l0 = 0"
    by (elim exE conjE) (rule that; assumption)
  have H: "aDTEND ?a < DTHALT_of ?a" by (simp add: example_args_def DTHALT_of_def)
  have so: "sorted [0::real]" by simp
  have le: "last [0] \<le> T l0" using i(7) by simp
  have kk: "K s0 < NDIM2" using i(6) by (simp add: run_reset_def NDIM2_def)
  from TIMSTR_body_std [OF i(2) H i(3,4) so le i(5) kk std] obtain go l1 s1 where
    "TIMSTR_body ?a (l0, s0) = Inr (go, l1, s1)" by blast
  with i(1) show ?thesis by blast
qed

theorem C6_step_size_witness:
  "\<exists>l0 s0 go l1 s1.
      TIMSTR_init example_args (run_reset sim0) = Inr (l0, s0)
    \<and> TIMSTR_body example_args (l0, s0) = Inr (go, l1, s1)
    \<and> DTI l0 = 1 / 800 \<and> DT l0 = DTI l0 \<and> DTI l1 = DTI l0 \<and> T l1 = T l0 + DT l0"
proof -
  from example_first_step obtain l0 s0 go l1 s1 where
    i: "TIMSTR_init example_args (run_reset sim0) = Inr (l0, s0)" and
    b: "TIMSTR_body example_args (l0, s0) = Inr (go, l1, s1)" by blast
  have "DTI l0 = 1 / 800 \<and> DT l0 = DTI l0 \<and> DTI l1 = DTI l0 \<and> T l1 = T l0 + DT l0"
    using C6_step_size [of example_args "run_reset sim0" l0 s0 l0 s0 go l1 s1] i b
    by (simp add: example_args_def run_reset_def sim0_def DZ_def power2_eq_square)
  with i b show ?thesis by blast
qed

text \<open>
  Claim C9.  In every state the loop of a solver run passes through, the surface node and
  the base node of both buffers hold the values they had when the loop was entered: the
  conductive values 1 and 0 for a first episode, which initialises the buffers, and the
  values left by the previous episode otherwise.  The same holds for the state a run
  returns.
\<close>

theorem C9_boundary_nodes_fixed:
  assumes "TIMSTR_init a s = Inr (l0, s0)" and "b < 2"
  shows "(loop_reach a (l0, s0) (l, s') \<longrightarrow>
            TEM s' b 0 = TEM s0 b 0 \<and> TEM s' b JN = TEM s0 b JN)
       \<and> (TIMSTR a s = Some (Inr sf) \<longrightarrow>
            TEM sf b 0 = TEM s0 b 0 \<and> TEM sf b JN = TEM s0 b JN)
       \<and> (if aKRR a = 0 then TEM s0 b 0 = Some 1 \<and> TEM s0 b JN = Some 0
          else TEM s0 b 0 = TEM s b 0 \<and> TEM s0 b JN = TEM s b JN)"
proof (intro conjI impI)
  assume "loop_reach a (l0, s0) (l, s')"
  from loop_reach_boundary [OF this, of b]
  show "TEM s' b 0 = TEM s0 b 0" "TEM s' b JN = TEM s0 b JN" by simp_all
next
  assume "TIMSTR a s = Some (Inr sf)"
  then have "TIMSTR_loop a (l0, s0) = Some (Inr sf)" using assms(1) by (simp add: TIMSTR_def)
  then obtain lf where "loop_reach a (l0, s0) (lf, sf)" using TIMSTR_loop_reach by blast
  from loop_reach_boundary [OF this, of b]
  show "TEM sf b 0 = TEM s0 b 0" "TEM sf b JN = TEM s0 b JN" by simp_all
next
  show "if aKRR a = 0 then TEM s0 b 0 = Some 1 \<and> TEM s0 b JN = Some 0
        else TEM s0 b 0 = TEM s b 0 \<and> TEM s0 b JN = TEM s b JN"
    by (rule TIMSTR_init_TEM [OF assms])
qed

theorem C9_boundary_nodes_fixed_witness:
  "\<exists>l0 s0 go l1 s1.
      TIMSTR_init example_args (run_reset sim0) = Inr (l0, s0)
    \<and> TIMSTR_body example_args (l0, s0) = Inr (go, l1, s1)
    \<and> loop_reach example_args (l0, s0) (l1, s1)
    \<and> TEM s1 0 0 = Some 1 \<and> TEM s1 0 JN = Some 0 \<and> TEM s1 1 0 = Some 1 \<and> TEM s1 1 JN = Some 0"
proof -
  from example_first_step obtain l0 s0 go l1 s1 where
    i: "TIMSTR_init example_args (run_reset sim0) = Inr (l0, s0)" and
    b: "TIMSTR_body example_args (l0, s0) = Inr (go, l1, s1)" by blast
  have r: "loop_reach example_args (l0, s0) (l1, s1)"
    by (rule loop_reach.step [OF loop_reach.start b])
  have k: "aKRR example_args = 0" by (simp add: example_args_def)
  have "TEM s1 0 0 = Some 1 \<and> TEM s1 0 JN = Some 0"
    using C9_boundary_nodes_fixed [OF i, of 0 l1 s1] r k by simp
  moreover have "TEM s1 1 0 = Some 1 \<and> TEM s1 1 JN = Some 0"
    using C9_boundary_nodes_fixed [OF i, of 1 l1 s1] r k by simp
  ultimately show ?thesis using i b r by blast
qed

subsection \<open>The stored subsidence\<close>








subsection \<open>The first pass of the sweep\<close>

lemma sweep_single:
  assumes "BETMAX p < b + BETINC p"
  shows "sweep p d b s = beta_pass p d b s"
  using assms by (subst sweep.simps) (simp split: option.splits sum.splits)

lemma sweep_first:
  "sweep p d b s = Some (Inr s') \<Longrightarrow> \<exists>s1. beta_pass p d b s = Some (Inr s1)"
  by (subst (asm) sweep.simps) (simp split: option.splits sum.splits)

lemma run_setup_BET: "run_setup (p\<lparr>BETMIN := x, BETMAX := y\<rparr>) d = run_setup p d"
proof -
  let ?p = "p\<lparr>BETMIN := x, BETMAX := y\<rparr>"
  have a: "check_cfg ?p = check_cfg p" by (simp add: check_cfg_def)
  have b: "nondimensionalise_parameters ?p = nondimensionalise_parameters p"
    by (rule ext) (simp add: nondimensionalise_parameters_def Let_def cong: if_cong)
  have c: "load_constants ?p = load_constants p"
    by (intro ext) (simp add: load_constants_def Let_def cong: if_cong)
  have e: "later_forcing ?p = later_forcing p"
    by (intro ext) (simp add: later_forcing_def later_GP_def Let_def cong: if_cong)
  have f: "setup_constants ?p = setup_constants p"
    by (rule ext) (simp add: setup_constants_def c e Let_def cong: if_cong)
  show ?thesis by (simp add: run_setup_def a b f)
qed

lemma finalise_row_ok:
  assumes rf: "rows_full s" and I: "0 < I" "I \<le> K s" and K: "K s \<le> NDIM2"
    and ts: "TIMSC d \<noteq> 0"
  shows "\<exists>s'. finalise_row p d I s = Inr s' \<and> rows_full s' \<and> K s' = K s"
proof -
  have k: "0 < I" "I \<le> NDIM2" using I K by simp_all
  show ?thesis
  proof (cases "DATA s 0 (I - 1)")
    case None
    then show ?thesis using rf by (simp add: finalise_row_def DATA_get_ok [OF k])
  next
    case (Some dt)
    have "I - 1 < K s" using I by simp
    with rf Some obtain h e where he: "DATA s 2 (I - 1) = Some h" "DATA s 3 (I - 1) = Some e"
      by (auto simp: rows_full_def)
    show ?thesis
      using Some he ts rf
      by (simp add: finalise_row_def DATA_get_ok [OF k] DATA_set_ok [OF k] num_def py_div_def
          IHFLW_def rows_full_def)
  qed
qed

lemma finalise_rows_ok:
  assumes "rows_full s" "\<forall>I\<in>set Is. 0 < I \<and> I \<le> K s" "K s \<le> NDIM2" "TIMSC d \<noteq> 0"
  shows "\<exists>s'. finalise_rows p d Is s = Inr s'"
  using assms
proof (induction Is arbitrary: s)
  case Nil
  then show ?case by simp
next
  case (Cons I Is)
  from finalise_row_ok [OF Cons.prems(1) _ _ Cons.prems(3,4), of I p] Cons.prems(2)
  obtain s1 where s1: "finalise_row p d I s = Inr s1" "rows_full s1" "K s1 = K s" by auto
  from Cons.IH [of s1] s1 Cons.prems obtain s' where "finalise_rows p d Is s1 = Inr s'"
    by auto
  then show ?case using s1(1) by simp
qed


lemma run_single_pass:
  "\<exists>d s1 s3. run_setup (INITVR\<lparr>BETMIN := 3/2, BETMAX := 1\<rparr>) derived0 = Inr d
      \<and> beta_pass (INITVR\<lparr>BETMIN := 3/2, BETMAX := 1\<rparr>) d (3/2) (run_reset sim0) = Some (Inr s1)
      \<and> run (INITVR\<lparr>BETMIN := 3/2, BETMAX := 1\<rparr>) derived0 sim0 = Some (Inr (d, s3))"
proof -
  let ?p = "INITVR\<lparr>BETMIN := 3/2, BETMAX := 1\<rparr>"
  obtain d ts where d: "run_setup INITVR derived0 = Inr d" "130 \<le> ts" "TIMSC d = ts"
    "DTEND1 d = 60 / ts" "DTSTOP d = 160 / ts" "DTST d = 1 / ts"
    using run_setup_INITVR by blast
  have su: "run_setup ?p derived0 = Inr d" using d(1) by (simp only: run_setup_BET)
  have p: "ITYPE1 ?p = 1" "IRIFT ?p = 1" by (simp_all add: INITVR_def)
  define s0 where "s0 = run_reset sim0"
  have s0: "AMPL s0 = 1" "K s0 = 1" by (simp_all add: s0_def run_reset_def)
  have k0: "0 < K s0" "K s0 + 1001 \<le> NDIM2" by (simp_all add: s0 NDIM2_def)
  have rf0: "rows_full (s0\<lparr>K := K s0 - 1\<rparr>)" by (simp add: rows_full_def s0)
  have b1: "(1::real) \<le> 3/2" "(3/2::real) \<le> 2" by simp_all
  from beta_pass_default [OF p d(2,4,5,6) b1 s0(1) k0 rf0] obtain s1 where A:
    "beta_pass ?p d (3/2) s0 = Some (Inr s1)" "rows_full s1" "K s1 \<le> K s0 + 1001"
    by (elim exE conjE) (rule that; assumption)
  have "BETMAX ?p < 3/2 + BETINC ?p" by (simp add: INITVR_def)
  then have sw: "sweep ?p d (3/2) s0 = Some (Inr s1)" using A(1) by (simp add: sweep_single)
  have K1: "K s1 \<le> NDIM2" using A(3) s0(2) by (simp add: NDIM2_def)
  have ts: "TIMSC d \<noteq> 0" using d(2,3) by simp
  have "\<forall>I\<in>set [1 ..< K s1 + 1]. 0 < I \<and> I \<le> K s1" by auto
  from finalise_rows_ok [OF A(2) this K1 ts] obtain s3 where
    f: "finalise_rows ?p d [1 ..< K s1 + 1] s1 = Inr s3" by blast
  have "run ?p derived0 sim0 = Some (Inr (d, s3))"
    using su sw f by (simp add: run_def s0_def [symmetric]) (simp add: INITVR_def)
  with su A(1) show ?thesis unfolding s0_def by blast
qed

text \<open>
  Claim C10.  Once the set-up of \<^verbatim>\<open>run\<close> has succeeded, the body of the sweep is executed
  for \<open>beta1 = BETMIN\<close> before any test against \<open>BETMAX\<close>: a run that returns a table has
  completed the solver pass for \<open>BETMIN\<close>, and with \<open>BETMIN > BETMAX\<close> and a non-negative
  increment the sweep is exactly that one pass.  The run returns a table only if the
  set-up and that pass do not raise.
\<close>

theorem C10_first_pass:
  assumes "run_setup p d = Inr d1"
  shows "(\<forall>r. run p d s = Some (Inr r)
            \<longrightarrow> (\<exists>s1. beta_pass p d1 (BETMIN p) (run_reset s) = Some (Inr s1)))
       \<and> (BETMAX p < BETMIN p \<and> 0 \<le> BETINC p
            \<longrightarrow> sweep p d1 (BETMIN p) (run_reset s) = beta_pass p d1 (BETMIN p) (run_reset s))"
proof (intro conjI allI impI)
  fix r assume r: "run p d s = Some (Inr r)"
  with assms obtain s2 where "sweep p d1 (BETMIN p) (run_reset s) = Some (Inr s2)"
    by (auto simp: run_def obind_def split: option.splits sum.splits)
  then show "\<exists>s1. beta_pass p d1 (BETMIN p) (run_reset s) = Some (Inr s1)"
    by (rule sweep_first)
next
  assume "BETMAX p < BETMIN p \<and> 0 \<le> BETINC p"
  then have "BETMAX p < BETMIN p + BETINC p" by simp
  then show "sweep p d1 (BETMIN p) (run_reset s) = beta_pass p d1 (BETMIN p) (run_reset s)"
    by (rule sweep_single)
qed

theorem C10_first_pass_witness:
  "\<exists>d1 r s1. run_setup (INITVR\<lparr>BETMIN := 3/2, BETMAX := 1\<rparr>) derived0 = Inr d1
     \<and> run (INITVR\<lparr>BETMIN := 3/2, BETMAX := 1\<rparr>) derived0 sim0 = Some (Inr r)
     \<and> BETMAX (INITVR\<lparr>BETMIN := 3/2, BETMAX := 1\<rparr>) < BETMIN (INITVR\<lparr>BETMIN := 3/2, BETMAX := 1\<rparr>)
     \<and> 0 \<le> BETINC (INITVR\<lparr>BETMIN := 3/2, BETMAX := 1\<rparr>)
     \<and> beta_pass (INITVR\<lparr>BETMIN := 3/2, BETMAX := 1\<rparr>) d1 (3/2) (run_reset sim0) = Some (Inr s1)
     \<and> sweep (INITVR\<lparr>BETMIN := 3/2, BETMAX := 1\<rparr>) d1 (3/2) (run_reset sim0) = Some (Inr s1)"
proof -
  let ?p = "INITVR\<lparr>BETMIN := 3/2, BETMAX := 1\<rparr>"
  from run_single_pass obtain d s1 s3 where
    su: "run_setup ?p derived0 = Inr d" and
    bp: "beta_pass ?p d (3/2) (run_reset sim0) = Some (Inr s1)" and
    r: "run ?p derived0 sim0 = Some (Inr (d, s3))" by blast
  have h: "BETMAX ?p < BETMIN ?p" "0 \<le> BETINC ?p" by (simp_all add: INITVR_def)
  have "sweep ?p d (3/2) (run_reset sim0) = Some (Inr s1)"
    using C10_first_pass [OF su, of sim0] h bp by simp
  with su r h bp show ?thesis by blast
qed

theorem C10_counterexample:
  "run (INITVR\<lparr>BETMIN := 0, BETMAX := - 1\<rparr>) derived0 sim0 = Some (Inl ValueError)
   \<and> BETMAX (INITVR\<lparr>BETMIN := 0, BETMAX := - 1\<rparr>) < BETMIN (INITVR\<lparr>BETMIN := 0, BETMAX := - 1\<rparr>)
   \<and> run (INITVR\<lparr>BETMIN := 3, TEND1 := 160\<rparr>) derived0 sim0 = Some (Inl AssertionError)
   \<and> BETMAX (INITVR\<lparr>BETMIN := 3, TEND1 := 160\<rparr>) < BETMIN (INITVR\<lparr>BETMIN := 3, TEND1 := 160\<rparr>)"
proof -
  let ?p = "INITVR\<lparr>BETMIN := 0, BETMAX := - 1\<rparr>"
  obtain d where d: "run_setup INITVR derived0 = Inr d"
    using run_setup_INITVR by blast
  have su: "run_setup ?p derived0 = Inr d" using d(1) by (simp only: run_setup_BET)
  have "set_dless_constants ?p d 0 (run_reset sim0) = Some (Inl ValueError)"
    by (simp add: set_dless_constants_def py_log_def INITVR_def)
  then have "beta_pass ?p d 0 (run_reset sim0) = Some (Inl ValueError)"
    by (simp add: beta_pass_def obind_def Let_def)
  then have "sweep ?p d 0 (run_reset sim0) = Some (Inl ValueError)"
    by (subst sweep.simps) simp
  then have a: "run ?p derived0 sim0 = Some (Inl ValueError)"
    using su by (simp add: run_def obind_def)
  have b: "run (INITVR\<lparr>BETMIN := 3, TEND1 := 160\<rparr>) derived0 sim0 = Some (Inl AssertionError)"
    by (simp add: run_def run_setup_def check_cfg_def INITVR_def)
  show ?thesis using a b by (simp add: INITVR_def)
qed

end
